theory Spec2Isabelle
  imports Main "HOL-Library.Word" "HOL-Library.AList" "HOL-Library.Char_ord"
    "HOL-Library.List_Lexorder"
begin

section \<open>Arrays, pixels and colour ranges\<close>

text \<open>
  The script \<^verbatim>\<open>scripts/segmentation_script.py\<close> works on NumPy arrays of
  \<^verbatim>\<open>uint8\<close>. A two-dimensional array is the list of its rows; a colour image
  of shape \<open>(h, w, 3)\<close> is a two-dimensional array of channel triples. NumPy arrays are
  rectangular by construction, which \<open>rect\<close> records for the list of rows.
\<close>

type_synonym u8 = "8 word"

type_synonym pixel = "u8 \<times> u8 \<times> u8"

type_synonym 'a ndarray = "'a list list"

definition shape :: "'a ndarray \<Rightarrow> nat \<times> nat" where
  "shape a = (length a, if a = [] then 0 else length (hd a))"

definition rect :: "'a ndarray \<Rightarrow> bool" where
  "rect a = list_all (\<lambda>r. length r = snd (shape a)) a"

text \<open>Output colours (BGR), lines 27--28.\<close>

definition WHITE :: pixel where
  "WHITE = (255, 255, 255)"

definition GREY :: pixel where
  "GREY = (128, 128, 128)"

text \<open>HSV thresholds, lines 32--37.\<close>

definition LANE_LOWER :: pixel where
  "LANE_LOWER = (20, 40, 120)"

definition LANE_UPPER :: pixel where
  "LANE_UPPER = (35, 255, 255)"

definition ROAD_LOWER :: pixel where
  "ROAD_LOWER = (125, 40, 120)"

definition ROAD_UPPER :: pixel where
  "ROAD_UPPER = (160, 255, 255)"

section \<open>The OpenCV operations the script calls\<close>

text \<open>
  OpenCV is a library outside the repository. Its operations are written out here as
  the library documents them for 8-bit arrays, so that \<open>make_mask\<close> can be read
  against the source line by line.

  \<^verbatim>\<open>cv2.inRange(src, lowerb, upperb)\<close>: the result is 255 where every channel of
  the pixel lies between the bounds, both included, and 0 elsewhere.
\<close>

definition in_bounds :: "pixel \<Rightarrow> pixel \<Rightarrow> pixel \<Rightarrow> bool" where
  "in_bounds p lower upper =
     (case p of (c0, c1, c2) \<Rightarrow>
      case lower of (l0, l1, l2) \<Rightarrow>
      case upper of (u0, u1, u2) \<Rightarrow>
        l0 \<le> c0 \<and> c0 \<le> u0 \<and> l1 \<le> c1 \<and> c1 \<le> u1 \<and> l2 \<le> c2 \<and> c2 \<le> u2)"

definition inRange :: "pixel ndarray \<Rightarrow> pixel \<Rightarrow> pixel \<Rightarrow> u8 ndarray" where
  "inRange src lowerb upperb =
     map (map (\<lambda>p. if in_bounds p lowerb upperb then 255 else 0)) src"

text \<open>
  \<^verbatim>\<open>cv2.getStructuringElement(cv2.MORPH_ELLIPSE, (3, 3))\<close>, line 40. For the size
  3 by 3 the ellipse inscribed in the square is the cross: the library fills row \<open>i\<close>
  from column \<open>1 - dx\<close> to column \<open>1 + dx\<close> with \<open>dx\<close> the rounded value of
  \<open>sqrt (1 - (i - 1)\<^sup>2)\<close>, which is 0, 1, 0 for the three rows.
\<close>

definition KERNEL :: "u8 ndarray" where
  "KERNEL = [[0, 1, 0],
             [1, 1, 1],
             [0, 1, 0]]"

text \<open>
  Erosion and dilation. The anchor is the centre of the kernel; the result at a pixel is
  the minimum (erosion) or the maximum (dilation) of the source over the pixels
  \<open>(y + i - anchor_y, x + j - anchor_x)\<close> for the non-zero kernel entries \<open>(i, j)\<close>.
  With the default border mode a position outside the array never wins: it reads as 255
  for an erosion and as 0 for a dilation.
\<close>

definition kernel_offsets :: "u8 ndarray \<Rightarrow> (int \<times> int) list" where
  "kernel_offsets k =
     (case shape k of (kh, kw) \<Rightarrow>
        concat (map (\<lambda>i. concat (map (\<lambda>j.
          if k ! i ! j \<noteq> 0 then [(int i - int (kh div 2), int j - int (kw div 2))] else [])
          [0..<kw])) [0..<kh]))"

definition pixel_at :: "u8 \<Rightarrow> u8 ndarray \<Rightarrow> int \<Rightarrow> int \<Rightarrow> u8" where
  "pixel_at border src y x =
     (case shape src of (h, w) \<Rightarrow>
        if 0 \<le> y \<and> y < int h \<and> 0 \<le> x \<and> x < int w then src ! nat y ! nat x else border)"

definition erode :: "u8 ndarray \<Rightarrow> u8 ndarray \<Rightarrow> u8 ndarray" where
  "erode src k =
     (case shape src of (h, w) \<Rightarrow>
        map (\<lambda>y. map (\<lambda>x.
          fold min (map (\<lambda>(dy, dx). pixel_at 255 src (int y + dy) (int x + dx))
                        (kernel_offsets k)) 255)
          [0..<w]) [0..<h])"

definition dilate :: "u8 ndarray \<Rightarrow> u8 ndarray \<Rightarrow> u8 ndarray" where
  "dilate src k =
     (case shape src of (h, w) \<Rightarrow>
        map (\<lambda>y. map (\<lambda>x.
          fold max (map (\<lambda>(dy, dx). pixel_at 0 src (int y + dy) (int x + dx))
                        (kernel_offsets k)) 0)
          [0..<w]) [0..<h])"

text \<open>
  \<^verbatim>\<open>cv2.morphologyEx(src, op, kernel, iterations=n)\<close> for the two operations the
  script uses: an opening erodes \<open>n\<close> times and then dilates \<open>n\<close> times, a closing
  dilates \<open>n\<close> times and then erodes \<open>n\<close> times.
\<close>

datatype morph_op = MORPH_OPEN | MORPH_CLOSE

fun morphologyEx :: "u8 ndarray \<Rightarrow> morph_op \<Rightarrow> u8 ndarray \<Rightarrow> nat \<Rightarrow> u8 ndarray" where
  "morphologyEx src MORPH_OPEN k iterations =
     ((\<lambda>a. dilate a k) ^^ iterations) (((\<lambda>a. erode a k) ^^ iterations) src)"
| "morphologyEx src MORPH_CLOSE k iterations =
     ((\<lambda>a. erode a k) ^^ iterations) (((\<lambda>a. dilate a k) ^^ iterations) src)"

section \<open>The mask builder and the painter\<close>

text \<open>\<^verbatim>\<open>make_mask\<close>, lines 48--54.\<close>

definition make_mask :: "pixel ndarray \<Rightarrow> pixel \<Rightarrow> pixel \<Rightarrow> u8 ndarray" where
  "make_mask hsv_img lower upper =
     (let raw = inRange hsv_img lower upper;
          opened = morphologyEx raw MORPH_OPEN KERNEL 1;
          closed = morphologyEx opened MORPH_CLOSE KERNEL 1
      in closed)"

text \<open>
  \<^verbatim>\<open>save_mask_as_color\<close>, lines 57--62: an array of zeros of the mask's height
  and width, then the assignment \<^verbatim>\<open>out[mask > 0] = color\<close> through the boolean
  array \<^verbatim>\<open>mask > 0\<close>. The output array is \<^verbatim>\<open>uint8\<close>, and a colour is a
  triple of 8-bit channels, as both constants passed by the script are.
\<close>

definition zeros :: "nat \<Rightarrow> nat \<Rightarrow> pixel ndarray" where
  "zeros h w = replicate h (replicate w (0, 0, 0))"

definition greater_zero :: "u8 ndarray \<Rightarrow> bool ndarray" where
  "greater_zero msk = map (map (\<lambda>v. 0 < v)) msk"

definition assign_where :: "'a ndarray \<Rightarrow> bool ndarray \<Rightarrow> 'a \<Rightarrow> 'a ndarray" where
  "assign_where out sel v =
     map (\<lambda>(orow, srow). map (\<lambda>(ov, s). if s then v else ov) (zip orow srow)) (zip out sel)"

definition save_mask_as_color :: "u8 ndarray \<Rightarrow> pixel \<Rightarrow> pixel ndarray" where
  "save_mask_as_color msk color =
     (case shape msk of (h, w) \<Rightarrow>
        let out = zeros h w;
            out = assign_where out (greater_zero msk) color
        in out)"

section \<open>Paths, the file system and the console\<close>

text \<open>
  A \<^verbatim>\<open>pathlib.Path\<close> is the list of its parts. The world the script runs in has
  the directories that exist, the regular files with their bytes, and the trace of what
  the script has printed and written so far. The type \<open>'b\<close> of file contents is left
  open. The empty path is the current directory, which exists. An exception that a library
  call raises and the script does not catch is a value of \<open>py_error\<close>.
\<close>

type_synonym path = "string list"

datatype 'b event = Print string | Write path 'b

datatype py_error = FileExistsError | NotADirectoryError

record 'b world =
  dirs :: "path list"
  files :: "(path \<times> 'b) list"
  trace :: "'b event list"

text \<open>Directories, lines 21--24.\<close>

definition INPUT_DIR :: path where
  "INPUT_DIR = [''input'']"

definition OUTPUT_DIR :: path where
  "OUTPUT_DIR = [''output'']"

definition LANES_DIR :: path where
  "LANES_DIR = OUTPUT_DIR @ [''lanes'']"

definition ROADS_DIR :: path where
  "ROADS_DIR = OUTPUT_DIR @ [''roads'']"

text \<open>\<^verbatim>\<open>str(path)\<close> and \<^verbatim>\<open>path.name\<close>.\<close>

fun path_str :: "path \<Rightarrow> string" where
  "path_str [] = ''.''"
| "path_str [a] = a"
| "path_str (a # b # rest) = a @ ''/'' @ path_str (b # rest)"

definition name :: "path \<Rightarrow> string" where
  "name p = (if p = [] then [] else last p)"

text \<open>\<^verbatim>\<open>print\<close> appends a line to the trace.\<close>

definition print_line :: "string \<Rightarrow> 'b world \<Rightarrow> 'b world" where
  "print_line s w = w\<lparr>trace := trace w @ [Print s]\<rparr>"

text \<open>\<^verbatim>\<open>Path.exists()\<close>: a directory or a regular file is there.\<close>

definition path_exists :: "'b world \<Rightarrow> path \<Rightarrow> bool" where
  "path_exists w p = (p \<in> set (dirs w) \<or> map_of (files w) p \<noteq> None)"

text \<open>\<^verbatim>\<open>Path.is_dir()\<close>.\<close>

definition is_dir :: "'b world \<Rightarrow> path \<Rightarrow> bool" where
  "is_dir w p = (p = [] \<or> p \<in> set (dirs w))"

text \<open>
  \<^verbatim>\<open>Path.mkdir(parents=True, exist_ok=True)\<close> goes through the path one
  component after the other: a directory that is there is passed, a missing one is
  created, and a regular file in the way raises, \<^verbatim>\<open>FileExistsError\<close> when it
  sits at the path itself and \<^verbatim>\<open>NotADirectoryError\<close> when it sits at an
  ancestor. The result is the exception, if any, and the world left behind.
\<close>

fun mkdir_parts :: "path list \<Rightarrow> path \<Rightarrow> 'b world \<Rightarrow> py_error option \<times> 'b world" where
  "mkdir_parts [] p w = (None, w)"
| "mkdir_parts (q # qs) p w =
     (if q \<in> set (dirs w) then mkdir_parts qs p w
      else if map_of (files w) q \<noteq> None
      then (Some (if q = p then FileExistsError else NotADirectoryError), w)
      else mkdir_parts qs p (w\<lparr>dirs := q # dirs w\<rparr>))"

definition mkdir :: "path \<Rightarrow> 'b world \<Rightarrow> py_error option \<times> 'b world" where
  "mkdir p w = mkdir_parts (map (\<lambda>n. take n p) [1..<Suc (length p)]) p w"

text \<open>
  \<^verbatim>\<open>Path.glob\<close> with a pattern \<^verbatim>\<open>*\<close> followed by a fixed suffix: the
  entries directly inside the directory whose name ends with the suffix, each once. A path
  that is not a directory has no entries.
\<close>

definition ends_with :: "string \<Rightarrow> string \<Rightarrow> bool" where
  "ends_with suffix s =
     (length suffix \<le> length s \<and> drop (length s - length suffix) s = suffix)"

definition glob :: "'b world \<Rightarrow> path \<Rightarrow> string \<Rightarrow> path list" where
  "glob w d suffix =
     (if d \<in> set (dirs w)
      then remdups (filter (\<lambda>p. p \<noteq> [] \<and> butlast p = d \<and> ends_with suffix (last p))
                           (map fst (files w) @ dirs w))
      else [])"

text \<open>
  The three operations of OpenCV that touch file contents or colour spaces are parameters:
  the decoder behind \<^verbatim>\<open>cv2.imread\<close> (\<open>None\<close> when the bytes are not an image),
  the encoder behind \<^verbatim>\<open>cv2.imwrite\<close> (chosen by the file name), and the
  conversion of one pixel from BGR to HSV behind \<^verbatim>\<open>cv2.cvtColor\<close>.
\<close>

record 'b cv2 =
  imdecode :: "'b \<Rightarrow> pixel ndarray option"
  imencode :: "string \<Rightarrow> pixel ndarray \<Rightarrow> 'b"
  bgr2hsv :: "pixel \<Rightarrow> pixel"

definition imread :: "'b cv2 \<Rightarrow> 'b world \<Rightarrow> path \<Rightarrow> pixel ndarray option" where
  "imread cv w p = (case map_of (files w) p of None \<Rightarrow> None | Some b \<Rightarrow> imdecode cv b)"

definition cvtColor :: "'b cv2 \<Rightarrow> pixel ndarray \<Rightarrow> pixel ndarray" where
  "cvtColor cv img = map (map (bgr2hsv cv)) img"

text \<open>
  \<^verbatim>\<open>cv2.imwrite\<close> opens the file for writing. Where the parent is not a
  directory or a directory sits at the path it writes nothing and returns
  \<^verbatim>\<open>False\<close>, which the script does not look at.
\<close>

definition can_write :: "'b world \<Rightarrow> path \<Rightarrow> bool" where
  "can_write w p = (is_dir w (butlast p) \<and> \<not> is_dir w p)"

definition imwrite :: "'b cv2 \<Rightarrow> path \<Rightarrow> pixel ndarray \<Rightarrow> 'b world \<Rightarrow> 'b world" where
  "imwrite cv p img w =
     (if can_write w p
      then let b = imencode cv (name p) img
           in w\<lparr>files := AList.update p b (files w), trace := trace w @ [Write p b]\<rparr>
      else w)"

section \<open>The per-image pipeline and the batch driver\<close>

text \<open>\<^verbatim>\<open>ensure_dirs\<close>, lines 43--45.\<close>

definition ensure_dirs :: "'b world \<Rightarrow> py_error option \<times> 'b world" where
  "ensure_dirs w =
     (case mkdir LANES_DIR w of
        (Some e, w) \<Rightarrow> (Some e, w)
      | (None, w) \<Rightarrow> mkdir ROADS_DIR w)"

text \<open>\<^verbatim>\<open>process_image\<close>, lines 65--85.\<close>

definition process_image :: "'b cv2 \<Rightarrow> path \<Rightarrow> 'b world \<Rightarrow> 'b world" where
  "process_image cv img_path w =
     (case imread cv w img_path of
        None \<Rightarrow> print_line (''Warning: Could not read image: '' @ path_str img_path) w
      | Some img \<Rightarrow>
          let hsv = cvtColor cv img;
              lane_mask = make_mask hsv LANE_LOWER LANE_UPPER;
              lane_out = save_mask_as_color lane_mask WHITE;
              road_mask = make_mask hsv ROAD_LOWER ROAD_UPPER;
              road_out = save_mask_as_color road_mask GREY;
              lanes_out_path = LANES_DIR @ [name img_path];
              roads_out_path = ROADS_DIR @ [name img_path];
              w = imwrite cv lanes_out_path lane_out w;
              w = imwrite cv roads_out_path road_out w
          in w)"

text \<open>
  \<^verbatim>\<open>main\<close>, lines 88--104: the exit status, or the exception that
  \<^verbatim>\<open>ensure_dirs\<close> raised, and the world the run leaves. The loop over the
  sorted paths is a fold.
\<close>

definition main :: "'b cv2 \<Rightarrow> 'b world \<Rightarrow> (py_error + int) \<times> 'b world" where
  "main cv w0 =
     (case ensure_dirs w0 of
        (Some e, w) \<Rightarrow> (Inl e, w)
      | (None, w) \<Rightarrow>
          if \<not> path_exists w INPUT_DIR
          then (Inr 1, print_line (''Error: Input directory not found: '' @ path_str INPUT_DIR) w)
          else
            let images = sort (glob w INPUT_DIR ''.jpg'') in
            if images = []
            then (Inr 0, print_line (''No .jpg images found in '' @ path_str INPUT_DIR) w)
            else
              let w = fold (process_image cv) images w in
              (Inr 0, print_line (''Done. Wrote lanes to '' @ [CHR 0x27] @ path_str LANES_DIR
                 @ [CHR 0x27] @ '' and roads to '' @ [CHR 0x27] @ path_str ROADS_DIR
                 @ [CHR 0x27] @ ''.'') w))"

section \<open>Notions used in the statements\<close>

text \<open>The events a run has added to the trace of the world it started from.\<close>

definition new_events :: "'b world \<Rightarrow> 'b world \<Rightarrow> 'b event list" where
  "new_events w w' = drop (length (trace w)) (trace w')"

fun is_write :: "'b event \<Rightarrow> bool" where
  "is_write (Write p b) = True"
| "is_write (Print s) = False"

fun written_path :: "'b event \<Rightarrow> path" where
  "written_path (Write p b) = p"
| "written_path (Print s) = []"

definition writes :: "'b event list \<Rightarrow> path list" where
  "writes evs = map written_path (filter is_write evs)"

definition warnings :: "'b event list \<Rightarrow> string list" where
  "warnings evs =
     concat (map (\<lambda>e. case e of Print s \<Rightarrow> (if take 8 s = ''Warning:'' then [s] else [])
                             | Write p b \<Rightarrow> []) evs)"

text \<open>
  The kernel's offsets are symmetric when the negation of each offset is an offset too,
  and the kernel fits the source at a pixel when every pixel of the array that the kernel
  covers there is on.
\<close>

definition symmetric_offsets :: "(int \<times> int) list \<Rightarrow> bool" where
  "symmetric_offsets os = list_all (\<lambda>(dy, dx). (- dy, - dx) \<in> set os) os"

definition element_fits :: "u8 ndarray \<Rightarrow> u8 ndarray \<Rightarrow> nat \<Rightarrow> nat \<Rightarrow> bool" where
  "element_fits src k y x =
     list_all (\<lambda>(dy, dx). pixel_at 255 src (int y + dy) (int x + dx) \<noteq> 0) (kernel_offsets k)"

text \<open>The files as the write events of a run leave them.\<close>

fun apply_event :: "'b event \<Rightarrow> (path \<times> 'b) list \<Rightarrow> (path \<times> 'b) list" where
  "apply_event (Write p b) fs = AList.update p b fs"
| "apply_event (Print s) fs = fs"

text \<open>A regular file that stands where a directory has to be made.\<close>

definition blocked :: "'b world \<Rightarrow> path \<Rightarrow> bool" where
  "blocked w p = (p \<notin> set (dirs w) \<and> map_of (files w) p \<noteq> None)"


section \<open>Sample worlds\<close>

text \<open>
  A codec whose file contents are the images themselves: empty contents do not decode,
  and the colour conversion leaves a pixel as it is. The sample input directory holds an
  unreadable file, two readable ones and a file with another extension; the stale world
  differs from it outside the input directory only: it has output directories, an old
  output file and an earlier trace.
\<close>

definition plain_codec :: "pixel ndarray cv2" where
  "plain_codec =
     \<lparr>imdecode = (\<lambda>b. if b = [] then None else Some b),
      imencode = (\<lambda>n img. img),
      bgr2hsv = (\<lambda>p. p)\<rparr>"

definition sample_world :: "pixel ndarray world" where
  "sample_world =
     \<lparr>dirs = [[''input'']],
      files = [([''input'', ''b.jpg''], [[(25, 50, 130)]]),
               ([''input'', ''a.jpg''], []),
               ([''input'', ''c.jpg''], [[(130, 50, 130), (0, 0, 0)]]),
               ([''input'', ''d.png''], [[(1, 1, 1)]])],
      trace = []\<rparr>"


definition missing_world :: "pixel ndarray world" where
  "missing_world = \<lparr>dirs = [], files = [], trace = []\<rparr>"

definition empty_world :: "pixel ndarray world" where
  "empty_world =
     \<lparr>dirs = [[''input'']], files = [([''input'', ''d.png''], [[(1, 1, 1)]])], trace = []\<rparr>"

text \<open>
  Worlds off the usual path: a regular file named \<^verbatim>\<open>input\<close> and no input
  directory; a regular file named \<^verbatim>\<open>output\<close>; a directory that sits at the
  path of a lane output.
\<close>

definition input_file_world :: "pixel ndarray world" where
  "input_file_world = \<lparr>dirs = [], files = [([''input''], [[(1, 1, 1)]])], trace = []\<rparr>"

definition output_file_world :: "pixel ndarray world" where
  "output_file_world =
     \<lparr>dirs = [[''input'']],
      files = [([''input'', ''b.jpg''], [[(25, 50, 130)]]), ([''output''], [[(1, 1, 1)]])],
      trace = []\<rparr>"


section \<open>Shapes\<close>

lemma rect_nth: "rect a \<Longrightarrow> y < length a \<Longrightarrow> length (a ! y) = snd (shape a)"
  by (simp add: rect_def list_all_length)

lemma shape_map_map: "shape (map (map f) a) = shape a"
  by (cases a) (simp_all add: shape_def)

lemma rect_map_map: "rect (map (map f) a) = rect a"
  by (simp add: rect_def shape_map_map list_all_length)

lemma shape_table:
  "shape (map (\<lambda>y. map (g y) [0..<w]) [0..<h]) = (h, if h = 0 then 0 else w)"
  by (cases h) (simp_all add: shape_def hd_map upt_conv_Cons del: upt_Suc)

lemma shape_fst: "fst (shape a) = length a"
  by (simp add: shape_def)

lemma inRange_nth:
  "y < length src \<Longrightarrow> x < length (src ! y) \<Longrightarrow>
   inRange src lo up ! y ! x = (if in_bounds (src ! y ! x) lo up then 255 else 0)"
  by (simp add: inRange_def)

lemma shape_inRange: "shape (inRange src lo up) = shape src"
  by (simp add: inRange_def shape_map_map)

lemma rect_inRange: "rect (inRange src lo up) = rect src"
  by (simp add: inRange_def rect_map_map)

lemma make_mask_unfold:
  "make_mask hsv_img lower upper =
     erode (dilate (dilate (erode (inRange hsv_img lower upper) KERNEL) KERNEL) KERNEL) KERNEL"
  by (simp add: make_mask_def)

lemma length_save_mask_as_color: "length (save_mask_as_color msk color) = length msk"
  by (simp add: save_mask_as_color_def shape_def assign_where_def zeros_def greater_zero_def)

lemma length_row_save_mask_as_color:
  assumes "rect msk" and "y < length msk"
  shows "length (save_mask_as_color msk color ! y) = snd (shape msk)"
  using assms rect_nth [OF assms]
  by (simp add: save_mask_as_color_def assign_where_def zeros_def greater_zero_def shape_def
      split: if_splits)

lemma save_mask_as_color_nth:
  assumes "rect msk" and "y < length msk" and "x < snd (shape msk)"
  shows "save_mask_as_color msk color ! y ! x = (if 0 < msk ! y ! x then color else (0, 0, 0))"
  using assms rect_nth [OF assms(1,2)]
  by (simp add: save_mask_as_color_def assign_where_def zeros_def greater_zero_def shape_def
      split: if_splits)

lemma shape_save_mask_as_color:
  assumes "rect msk"
  shows "shape (save_mask_as_color msk color) = shape msk"
proof (cases msk)
  case Nil
  then show ?thesis
    by (simp add: save_mask_as_color_def shape_def assign_where_def zeros_def greater_zero_def)
next
  case (Cons r rs)
  then have len: "0 < length msk" by simp
  have "length (save_mask_as_color msk color ! 0) = snd (shape msk)"
    using length_row_save_mask_as_color [OF assms len] .
  moreover have "save_mask_as_color msk color \<noteq> []"
    using len length_save_mask_as_color [of msk color] by auto
  ultimately show ?thesis
    using length_save_mask_as_color [of msk color] len
    by (simp add: shape_def hd_conv_nth)
qed

lemma rect_save_mask_as_color:
  assumes "rect msk"
  shows "rect (save_mask_as_color msk color)"
  using length_row_save_mask_as_color [OF assms] shape_save_mask_as_color [OF assms]
  by (simp add: rect_def list_all_length length_save_mask_as_color)


section \<open>Minimum and maximum over a neighbourhood\<close>

lemma u8_le_255: "(v :: u8) \<le> 255"
proof -
  have eq: "(255 :: u8) = - 1" by simp
  show ?thesis unfolding eq by (rule word_n1_ge)
qed

lemma fold_min_le_init: "fold min xs (b :: 'a :: linorder) \<le> b"
proof (induction xs arbitrary: b)
  case Nil
  show ?case by simp
next
  case (Cons a xs)
  have "fold min xs (min a b) \<le> min a b" by (rule Cons.IH)
  also have "min a b \<le> b" by simp
  finally show ?case by simp
qed

lemma fold_min_le_elem: "v \<in> set xs \<Longrightarrow> fold min xs (b :: 'a :: linorder) \<le> v"
proof (induction xs arbitrary: b)
  case Nil
  then show ?case by simp
next
  case (Cons a xs)
  show ?case
  proof (cases "v = a")
    case True
    have "fold min xs (min a b) \<le> min a b" by (rule fold_min_le_init)
    then show ?thesis using True by simp
  next
    case False
    then show ?thesis using Cons by simp
  qed
qed

lemma fold_min_greatest:
  "c \<le> b \<Longrightarrow> (\<And>v. v \<in> set xs \<Longrightarrow> c \<le> v) \<Longrightarrow> c \<le> fold min xs (b :: 'a :: linorder)"
  by (induction xs arbitrary: b) simp_all

lemma fold_max_ge_init: "b \<le> fold max xs (b :: 'a :: linorder)"
proof (induction xs arbitrary: b)
  case Nil
  show ?case by simp
next
  case (Cons a xs)
  have "b \<le> max a b" by simp
  also have "max a b \<le> fold max xs (max a b)" by (rule Cons.IH)
  finally show ?case by simp
qed

lemma fold_max_ge_elem: "v \<in> set xs \<Longrightarrow> v \<le> fold max xs (b :: 'a :: linorder)"
proof (induction xs arbitrary: b)
  case Nil
  then show ?case by simp
next
  case (Cons a xs)
  show ?case
  proof (cases "v = a")
    case True
    have "max a b \<le> fold max xs (max a b)" by (rule fold_max_ge_init)
    then show ?thesis using True by simp
  next
    case False
    then show ?thesis using Cons by simp
  qed
qed

lemma fold_max_least:
  "b \<le> c \<Longrightarrow> (\<And>v. v \<in> set xs \<Longrightarrow> v \<le> c) \<Longrightarrow> fold max xs (b :: 'a :: linorder) \<le> c"
  by (induction xs arbitrary: b) simp_all

lemma fold_min_in: "fold min xs (b :: 'a :: linorder) = b \<or> fold min xs b \<in> set xs"
  by (induction xs arbitrary: b) (auto simp: min_def)

lemma fold_max_in: "fold max xs (b :: 'a :: linorder) = b \<or> fold max xs b \<in> set xs"
  by (induction xs arbitrary: b) (auto simp: max_def)

lemma shape_erode: "shape (erode src k) = shape src"
  by (cases "shape src") (auto simp: erode_def shape_table, auto simp: shape_def split: if_splits)

lemma shape_dilate: "shape (dilate src k) = shape src"
  by (cases "shape src") (auto simp: dilate_def shape_table, auto simp: shape_def split: if_splits)

lemma rect_table: "rect (map (\<lambda>y. map (g y) [0..<w]) [0..<h])"
  by (simp add: rect_def shape_table list_all_length)

lemma rect_erode: "rect (erode src k)"
  by (cases "shape src") (simp add: erode_def rect_table)

lemma rect_dilate: "rect (dilate src k)"
  by (cases "shape src") (simp add: dilate_def rect_table)

lemma erode_nth:
  "y < fst (shape src) \<Longrightarrow> x < snd (shape src) \<Longrightarrow>
   erode src k ! y ! x =
     fold min (map (\<lambda>(dy, dx). pixel_at 255 src (int y + dy) (int x + dx)) (kernel_offsets k)) 255"
  by (cases "shape src") (simp add: erode_def)

lemma dilate_nth:
  "y < fst (shape src) \<Longrightarrow> x < snd (shape src) \<Longrightarrow>
   dilate src k ! y ! x =
     fold max (map (\<lambda>(dy, dx). pixel_at 0 src (int y + dy) (int x + dx)) (kernel_offsets k)) 0"
  by (cases "shape src") (simp add: dilate_def)

lemma pixel_at_inside:
  "y < fst (shape src) \<Longrightarrow> x < snd (shape src) \<Longrightarrow> pixel_at b src (int y) (int x) = src ! y ! x"
  by (cases "shape src") (simp add: pixel_at_def)

lemma pixel_at_cases:
  obtains (inside) y' x' where "y = int y'" "x = int x'" "y' < fst (shape src)" "x' < snd (shape src)"
      "pixel_at b src y x = src ! y' ! x'"
    | (outside) "pixel_at b src y x = b"
proof (cases "0 \<le> y \<and> y < int (fst (shape src)) \<and> 0 \<le> x \<and> x < int (snd (shape src))")
  case True
  then have "y = int (nat y)" "x = int (nat x)" "nat y < fst (shape src)" "nat x < snd (shape src)"
    by auto
  moreover have "pixel_at b src y x = src ! nat y ! nat x"
    using True by (cases "shape src") (simp add: pixel_at_def)
  ultimately show ?thesis using inside by blast
next
  case False
  then have "pixel_at b src y x = b"
    by (cases "shape src") (auto simp add: pixel_at_def)
  then show ?thesis using outside by blast
qed


section \<open>Opening and closing with a symmetric kernel\<close>

lemma kernel_offsets_KERNEL:
  "kernel_offsets KERNEL = [(- 1, 0), (0, - 1), (0, 0), (0, 1), (1, 0)]"
  by (simp add: kernel_offsets_def KERNEL_def shape_def upt_conv_Cons del: upt_Suc)

lemma symmetric_KERNEL: "symmetric_offsets (kernel_offsets KERNEL)"
  by (simp add: kernel_offsets_KERNEL symmetric_offsets_def)

lemma symmetric_offsetsD:
  "symmetric_offsets os \<Longrightarrow> (dy, dx) \<in> set os \<Longrightarrow> (- dy, - dx) \<in> set os"
  by (auto simp: symmetric_offsets_def list_all_iff)

lemma opening_le:
  assumes sym: "symmetric_offsets (kernel_offsets k)"
    and y: "y < fst (shape src)" and x: "x < snd (shape src)"
  shows "dilate (erode src k) k ! y ! x \<le> src ! y ! x"
proof -
  let ?f = "\<lambda>(dy, dx). pixel_at 0 (erode src k) (int y + dy) (int x + dx)"
  have "dilate (erode src k) k ! y ! x = fold max (map ?f (kernel_offsets k)) 0"
    using y x by (simp add: dilate_nth shape_erode)
  moreover have "fold max (map ?f (kernel_offsets k)) 0 \<le> src ! y ! x"
  proof (rule fold_max_least)
    show "0 \<le> src ! y ! x" by simp
  next
    fix v assume "v \<in> set (map ?f (kernel_offsets k))"
    then obtain dy dx where off: "(dy, dx) \<in> set (kernel_offsets k)"
      and v: "v = pixel_at 0 (erode src k) (int y + dy) (int x + dx)"
      by auto
    show "v \<le> src ! y ! x"
    proof (cases rule: pixel_at_cases [where y = "int y + dy" and x = "int x + dx"
        and src = "erode src k" and b = "0"])
      case (inside y' x')
      let ?g = "\<lambda>(ey, ex). pixel_at 255 src (int y' + ey) (int x' + ex)"
      have neg: "(- dy, - dx) \<in> set (kernel_offsets k)"
        using sym off by (rule symmetric_offsetsD)
      have "erode src k ! y' ! x' = fold min (map ?g (kernel_offsets k)) 255"
        using inside by (simp add: erode_nth shape_erode)
      also have "\<dots> \<le> ?g (- dy, - dx)"
        using neg by (intro fold_min_le_elem) force
      also have "?g (- dy, - dx) = pixel_at 255 src (int y) (int x)"
      proof -
        have "int y' - dy = int y" and "int x' - dx = int x"
          using inside(1,2) by linarith+
        then show ?thesis by simp
      qed
      also have "\<dots> = src ! y ! x"
        using y x by (rule pixel_at_inside)
      finally show ?thesis using v inside by simp
    next
      case outside
      then show ?thesis using v by simp
    qed
  qed
  ultimately show ?thesis by simp
qed

lemma closing_ge:
  assumes sym: "symmetric_offsets (kernel_offsets k)"
    and y: "y < fst (shape src)" and x: "x < snd (shape src)"
  shows "src ! y ! x \<le> erode (dilate src k) k ! y ! x"
proof -
  let ?f = "\<lambda>(dy, dx). pixel_at 255 (dilate src k) (int y + dy) (int x + dx)"
  have "erode (dilate src k) k ! y ! x = fold min (map ?f (kernel_offsets k)) 255"
    using y x by (simp add: erode_nth shape_dilate)
  moreover have "src ! y ! x \<le> fold min (map ?f (kernel_offsets k)) 255"
  proof (rule fold_min_greatest)
    show "src ! y ! x \<le> 255" by (rule u8_le_255)
  next
    fix v assume "v \<in> set (map ?f (kernel_offsets k))"
    then obtain dy dx where off: "(dy, dx) \<in> set (kernel_offsets k)"
      and v: "v = pixel_at 255 (dilate src k) (int y + dy) (int x + dx)"
      by auto
    show "src ! y ! x \<le> v"
    proof (cases rule: pixel_at_cases [where y = "int y + dy" and x = "int x + dx"
        and src = "dilate src k" and b = "255"])
      case (inside y' x')
      let ?g = "\<lambda>(ey, ex). pixel_at 0 src (int y' + ey) (int x' + ex)"
      have neg: "(- dy, - dx) \<in> set (kernel_offsets k)"
        using sym off by (rule symmetric_offsetsD)
      have "src ! y ! x = pixel_at 0 src (int y) (int x)"
        using y x by (simp add: pixel_at_inside)
      also have "\<dots> = ?g (- dy, - dx)"
      proof -
        have "int y' - dy = int y" and "int x' - dx = int x"
          using inside(1,2) by linarith+
        then show ?thesis by simp
      qed
      also have "\<dots> \<le> fold max (map ?g (kernel_offsets k)) 0"
        using neg by (intro fold_max_ge_elem) force
      also have "\<dots> = dilate src k ! y' ! x'"
        using inside by (simp add: dilate_nth shape_dilate)
      finally show ?thesis using v inside by simp
    next
      case outside
      then show ?thesis using v by (simp add: u8_le_255)
    qed
  qed
  ultimately show ?thesis by simp
qed

lemma erode_on_fits:
  assumes y: "y < fst (shape src)" and x: "x < snd (shape src)"
    and on: "erode src k ! y ! x \<noteq> 0"
  shows "element_fits src k y x"
proof -
  let ?g = "\<lambda>(ey, ex). pixel_at 255 src (int y + ey) (int x + ex)"
  have e: "erode src k ! y ! x = fold min (map ?g (kernel_offsets k)) 255"
    using y x by (rule erode_nth)
  have "?g off \<noteq> 0" if "off \<in> set (kernel_offsets k)" for off
  proof
    assume z: "?g off = 0"
    have "fold min (map ?g (kernel_offsets k)) 255 \<le> ?g off"
      using that by (intro fold_min_le_elem) simp
    then show False using z e on by simp
  qed
  then show ?thesis
    by (auto simp: element_fits_def list_all_iff)
qed

lemma opening_on_covered:
  assumes y: "y < fst (shape src)" and x: "x < snd (shape src)"
    and on: "dilate (erode src k) k ! y ! x \<noteq> 0"
  shows "\<exists>(dy, dx) \<in> set (kernel_offsets k). \<exists>y' x'.
           int y' = int y + dy \<and> int x' = int x + dx \<and>
           y' < fst (shape src) \<and> x' < snd (shape src) \<and> element_fits src k y' x'"
proof -
  let ?f = "\<lambda>(dy, dx). pixel_at 0 (erode src k) (int y + dy) (int x + dx)"
  have d: "dilate (erode src k) k ! y ! x = fold max (map ?f (kernel_offsets k)) 0"
    using y x by (simp add: dilate_nth shape_erode)
  have "fold max (map ?f (kernel_offsets k)) 0 \<in> set (map ?f (kernel_offsets k))"
    using fold_max_in [of "map ?f (kernel_offsets k)" 0] d on by auto
  then obtain dy dx where off: "(dy, dx) \<in> set (kernel_offsets k)"
    and v: "pixel_at 0 (erode src k) (int y + dy) (int x + dx) \<noteq> 0"
    using d on by auto
  show ?thesis
  proof (cases rule: pixel_at_cases [where y = "int y + dy" and x = "int x + dx"
        and src = "erode src k" and b = "0"])
    case (inside y' x')
    then have "element_fits src k y' x'"
      using v by (intro erode_on_fits) (simp_all add: shape_erode)
    then have "int y' = int y + dy \<and> int x' = int x + dx \<and>
           y' < fst (shape src) \<and> x' < snd (shape src) \<and> element_fits src k y' x'"
      using inside by (simp add: shape_erode)
    then show ?thesis
      using off by blast
  next
    case outside
    then show ?thesis using v by simp
  qed
qed


section \<open>The mask builder and the painter: properties\<close>

subsection \<open>The raw mask\<close>

text \<open>
  Claim C1. The mask that \<open>make_mask\<close> builds before any morphology is
  \<open>inRange hsv_img lower upper\<close>. At every pixel of the image it is 255 exactly when
  each of the three channels lies between its lower and its upper bound, both included,
  and 0 exactly when some channel does not. So a pixel with every channel strictly inside
  the range is on, and a pixel with a channel strictly outside it is off.
\<close>

theorem inRange_on_iff_within_bounds:
  "y < length hsv_img \<Longrightarrow> x < length (hsv_img ! y) \<Longrightarrow> hsv_img ! y ! x = (c0, c1, c2) \<Longrightarrow>
   make_mask hsv_img (l0, l1, l2) (u0, u1, u2) =
     morphologyEx (morphologyEx (inRange hsv_img (l0, l1, l2) (u0, u1, u2)) MORPH_OPEN KERNEL 1)
       MORPH_CLOSE KERNEL 1 \<and>
   (inRange hsv_img (l0, l1, l2) (u0, u1, u2) ! y ! x = 255 \<longleftrightarrow>
      l0 \<le> c0 \<and> c0 \<le> u0 \<and> l1 \<le> c1 \<and> c1 \<le> u1 \<and> l2 \<le> c2 \<and> c2 \<le> u2) \<and>
   (inRange hsv_img (l0, l1, l2) (u0, u1, u2) ! y ! x = 0 \<longleftrightarrow>
      \<not> (l0 \<le> c0 \<and> c0 \<le> u0 \<and> l1 \<le> c1 \<and> c1 \<le> u1 \<and> l2 \<le> c2 \<and> c2 \<le> u2)) \<and>
   (l0 < c0 \<and> c0 < u0 \<and> l1 < c1 \<and> c1 < u1 \<and> l2 < c2 \<and> c2 < u2 \<longrightarrow>
      inRange hsv_img (l0, l1, l2) (u0, u1, u2) ! y ! x = 255) \<and>
   (c0 < l0 \<or> u0 < c0 \<or> c1 < l1 \<or> u1 < c1 \<or> c2 < l2 \<or> u2 < c2 \<longrightarrow>
      inRange hsv_img (l0, l1, l2) (u0, u1, u2) ! y ! x = 0)"
  by (auto simp: inRange_nth in_bounds_def make_mask_def)

text \<open>
  The lane range on a one-row image: the first pixel is inside, the second is black.
\<close>

theorem inRange_on_iff_within_bounds_witness:
  "(0 :: nat) < length [[(25, 50, 130), (0, 0, 0) :: pixel]] \<and>
   (1 :: nat) < length ([[(25, 50, 130), (0, 0, 0) :: pixel]] ! 0) \<and>
   inRange [[(25, 50, 130), (0, 0, 0)]] (20, 40, 120) (35, 255, 255) ! 0 ! 0 = 255 \<and>
   inRange [[(25, 50, 130), (0, 0, 0)]] (20, 40, 120) (35, 255, 255) ! 0 ! 1 = 0"
proof -
  let ?img = "[[(25, 50, 130), (0, 0, 0) :: pixel]]"
  have y: "(0 :: nat) < length ?img" by simp
  have x0: "(0 :: nat) < length (?img ! 0)" and x1: "(1 :: nat) < length (?img ! 0)" by simp_all
  have p0: "?img ! 0 ! 0 = (25, 50, 130)" and p1: "?img ! 0 ! 1 = (0, 0, 0)" by simp_all
  show ?thesis
    using inRange_on_iff_within_bounds [OF y x0 p0, of 20 40 120 35 255 255]
      inRange_on_iff_within_bounds [OF y x1 p1, of 20 40 120 35 255 255]
    by simp
qed

subsection \<open>The two morphology steps\<close>

text \<open>
  Claim C2. The mask builder post-processes the raw mask in two steps, in this order: an
  opening, which with one iteration is one erosion followed by one dilation, and then a
  closing, which is one dilation followed by one erosion. Both take the same kernel, of
  shape 3 by 3, whose non-zero entries are the centre and its four neighbours.
\<close>

theorem make_mask_open_then_close:
  "make_mask hsv_img lower upper =
     erode (dilate (dilate (erode (inRange hsv_img lower upper) KERNEL) KERNEL) KERNEL) KERNEL \<and>
   morphologyEx raw MORPH_OPEN KERNEL 1 = dilate (erode raw KERNEL) KERNEL \<and>
   morphologyEx opened MORPH_CLOSE KERNEL 1 = erode (dilate opened KERNEL) KERNEL \<and>
   shape KERNEL = (3, 3) \<and> rect KERNEL \<and>
   kernel_offsets KERNEL = [(- 1, 0), (0, - 1), (0, 0), (0, 1), (1, 0)]"
  by (simp add: make_mask_def kernel_offsets_KERNEL) (simp add: KERNEL_def shape_def rect_def)

text \<open>
  The lane mask of a 2 by 2 image with one pixel out of range.
\<close>

theorem make_mask_open_then_close_witness:
  "make_mask [[(25, 50, 130), (25, 50, 130)], [(25, 50, 130), (0, 0, 0)]] LANE_LOWER LANE_UPPER =
     [[255, 255], [255, 255]] \<and>
   inRange [[(25, 50, 130), (25, 50, 130)], [(25, 50, 130), (0, 0, 0)]] LANE_LOWER LANE_UPPER =
     [[255, 255], [255, 0]]"
proof -
  let ?img = "[[(25, 50, 130), (25, 50, 130)], [(25, 50, 130), (0, 0, 0) :: pixel]]"
  have raw: "inRange ?img LANE_LOWER LANE_UPPER = [[255, 255], [255, 0]]"
    by (simp add: inRange_def in_bounds_def LANE_LOWER_def LANE_UPPER_def)
  have e1: "erode [[255, 255], [255, 0]] KERNEL = [[255, 0], [0, 0]]" by code_simp
  have d1: "dilate [[255, 0], [0, 0]] KERNEL = [[255, 255], [255, 0]]" by code_simp
  have d2: "dilate [[255, 255], [255, 0]] KERNEL = [[255, 255], [255, 255]]" by code_simp
  have e2: "erode [[255, 255], [255, 255]] KERNEL = [[255, 255], [255, 255]]" by code_simp
  show ?thesis
    using make_mask_open_then_close [of ?img LANE_LOWER LANE_UPPER]
    by (simp only: raw e1 d1 d2 e2)
qed

subsection \<open>Shrinking and growing\<close>

text \<open>
  Claim C8. The opening of a raw mask is below the raw mask at every pixel, so it turns
  no pixel on; a pixel that is on after the opening lies under a placement of the kernel
  that fits the raw mask. The closing of the opened mask is above the opened mask at every
  pixel, so it turns no pixel of the opened mask off.
\<close>

theorem opening_shrinks_closing_grows:
  "y < fst (shape raw) \<Longrightarrow> x < snd (shape raw) \<Longrightarrow>
   (let opened = morphologyEx raw MORPH_OPEN KERNEL 1;
        closed = morphologyEx opened MORPH_CLOSE KERNEL 1
    in shape opened = shape raw \<and> shape closed = shape raw \<and>
       opened ! y ! x \<le> raw ! y ! x \<and>
       (opened ! y ! x \<noteq> 0 \<longrightarrow> raw ! y ! x \<noteq> 0) \<and>
       (opened ! y ! x \<noteq> 0 \<longrightarrow>
          (\<exists>(dy, dx) \<in> set (kernel_offsets KERNEL). \<exists>y' x'.
             int y' = int y + dy \<and> int x' = int x + dx \<and>
             y' < fst (shape raw) \<and> x' < snd (shape raw) \<and> element_fits raw KERNEL y' x')) \<and>
       opened ! y ! x \<le> closed ! y ! x \<and>
       (opened ! y ! x \<noteq> 0 \<longrightarrow> closed ! y ! x \<noteq> 0))"
proof -
  assume y: "y < fst (shape raw)" and x: "x < snd (shape raw)"
  let ?opened = "dilate (erode raw KERNEL) KERNEL"
  let ?closed = "erode (dilate ?opened KERNEL) KERNEL"
  have so: "shape ?opened = shape raw" by (simp add: shape_dilate shape_erode)
  have sc: "shape ?closed = shape raw" by (simp add: shape_dilate shape_erode)
  have le: "?opened ! y ! x \<le> raw ! y ! x"
    using symmetric_KERNEL y x by (rule opening_le)
  have ge: "?opened ! y ! x \<le> ?closed ! y ! x"
    using symmetric_KERNEL y x by (intro closing_ge) (simp_all add: so)
  have cov: "?opened ! y ! x \<noteq> 0 \<longrightarrow>
          (\<exists>(dy, dx) \<in> set (kernel_offsets KERNEL). \<exists>y' x'.
             int y' = int y + dy \<and> int x' = int x + dx \<and>
             y' < fst (shape raw) \<and> x' < snd (shape raw) \<and> element_fits raw KERNEL y' x')"
    using opening_on_covered [OF y x, of KERNEL] by blast
  have nz1: "?opened ! y ! x \<noteq> 0 \<longrightarrow> raw ! y ! x \<noteq> 0" using le by auto
  have nz2: "?opened ! y ! x \<noteq> 0 \<longrightarrow> ?closed ! y ! x \<noteq> 0" using ge by auto
  show ?thesis
    unfolding Let_def morphologyEx.simps One_nat_def funpow.simps o_def id_def
    using so sc le nz1 cov ge nz2 by blast
qed

text \<open>
  A 3 by 3 mask with a speckle in the corner, which the opening removes.
\<close>

theorem opening_shrinks_closing_grows_witness:
  "(0 :: nat) < fst (shape [[255, 0, 0], [0, 255, 255], [0, 255, 255 :: u8]]) \<and>
   (0 :: nat) < snd (shape [[255, 0, 0], [0, 255, 255], [0, 255, 255 :: u8]]) \<and>
   morphologyEx [[255, 0, 0], [0, 255, 255], [0, 255, 255]] MORPH_OPEN KERNEL 1 ! 0 ! 0
     \<le> [[255, 0, 0], [0, 255, 255], [0, 255, 255 :: u8]] ! 0 ! 0 \<and>
   morphologyEx [[255, 0, 0], [0, 255, 255], [0, 255, 255]] MORPH_OPEN KERNEL 1 =
     [[0, 0, 0], [0, 0, 255], [0, 255, 255]]"
proof -
  let ?raw = "[[255, 0, 0], [0, 255, 255], [0, 255, 255 :: u8]]"
  have s: "shape ?raw = (3, 3)" by (simp add: shape_def)
  have y: "(0 :: nat) < fst (shape ?raw)" and x: "(0 :: nat) < snd (shape ?raw)"
    by (simp_all add: s)
  have op: "morphologyEx ?raw MORPH_OPEN KERNEL 1 = [[0, 0, 0], [0, 0, 255], [0, 255, 255]]"
    by code_simp
  show ?thesis
    using y x opening_shrinks_closing_grows [OF y x] op by (simp add: Let_def)
qed

subsection \<open>The painter\<close>

text \<open>
  Claim C3. For a mask and a colour the painter returns an image of the mask's shape. A
  pixel whose mask value is on has exactly the colour, a pixel whose mask value is off is
  black, and so every pixel of the output is the colour or black.
\<close>

theorem save_mask_as_color_two_colours:
  "rect msk \<Longrightarrow>
   shape (save_mask_as_color msk color) = shape msk \<and>
   rect (save_mask_as_color msk color) \<and>
   (\<forall>y < fst (shape msk). \<forall>x < snd (shape msk).
      (msk ! y ! x \<noteq> 0 \<longrightarrow> save_mask_as_color msk color ! y ! x = color) \<and>
      (msk ! y ! x = 0 \<longrightarrow> save_mask_as_color msk color ! y ! x = (0, 0, 0))) \<and>
   (\<forall>row \<in> set (save_mask_as_color msk color). \<forall>p \<in> set row. p = color \<or> p = (0, 0, 0))"
proof -
  assume r: "rect msk"
  let ?out = "save_mask_as_color msk color"
  have sh: "shape ?out = shape msk" using r by (rule shape_save_mask_as_color)
  have re: "rect ?out" using r by (rule rect_save_mask_as_color)
  have px: "?out ! y ! x = (if 0 < msk ! y ! x then color else (0, 0, 0))"
    if "y < fst (shape msk)" "x < snd (shape msk)" for y x
    using r that by (simp add: save_mask_as_color_nth shape_fst)
  have two: "p = color \<or> p = (0, 0, 0)" if row: "row \<in> set ?out" and p: "p \<in> set row" for row p
  proof -
    from row obtain y where y: "y < length ?out" and rowy: "row = ?out ! y"
      by (auto simp: in_set_conv_nth)
    from p obtain x where x: "x < length row" and px': "p = row ! x"
      by (auto simp: in_set_conv_nth)
    have "y < fst (shape msk)" using y by (simp add: length_save_mask_as_color shape_fst)
    moreover have "x < snd (shape msk)"
      using x rowy y r by (simp add: length_row_save_mask_as_color length_save_mask_as_color)
    ultimately show ?thesis using px [of y x] px' rowy by simp
  qed
  show ?thesis using sh re px two by (simp add: word_greater_zero_iff)
qed

text \<open>
  A 2 by 2 mask painted grey.
\<close>

theorem save_mask_as_color_two_colours_witness:
  "rect [[0, 255], [255, 0 :: u8]] \<and>
   save_mask_as_color [[0, 255], [255, 0]] GREY ! 0 ! 1 = GREY \<and>
   save_mask_as_color [[0, 255], [255, 0]] GREY ! 0 ! 0 = (0, 0, 0) \<and>
   shape (save_mask_as_color [[0, 255], [255, 0]] GREY) = (2, 2)"
proof -
  have r: "rect [[0, 255], [255, 0 :: u8]]" by (simp add: rect_def shape_def)
  have s: "shape [[0, 255], [255, 0 :: u8]] = (2, 2)" by (simp add: shape_def)
  show ?thesis
    using r save_mask_as_color_two_colours [OF r, of GREY] by (simp add: s)
qed

text \<open>
  Claim C10. The painter takes a pixel as on when its mask value, read as an unsigned
  number, is greater than zero: the values 1 and 254 are painted as 255 is, and only the
  value 0 is left black.
\<close>

theorem save_mask_as_color_on_iff_greater_zero:
  "rect msk \<Longrightarrow> y < fst (shape msk) \<Longrightarrow> x < snd (shape msk) \<Longrightarrow>
   save_mask_as_color msk color ! y ! x = (if 0 < unat (msk ! y ! x) then color else (0, 0, 0)) \<and>
   (color \<noteq> (0, 0, 0) \<longrightarrow>
      (save_mask_as_color msk color ! y ! x = color \<longleftrightarrow> 0 < unat (msk ! y ! x)) \<and>
      (save_mask_as_color msk color ! y ! x = (0, 0, 0) \<longleftrightarrow> unat (msk ! y ! x) = 0))"
  by (simp add: save_mask_as_color_nth shape_fst word_greater_zero_iff unat_gt_0)

text \<open>
  A mask with the values 1, 0, 254 and 255 painted white.
\<close>

theorem save_mask_as_color_on_iff_greater_zero_witness:
  "rect [[1, 0], [254, 255 :: u8]] \<and>
   save_mask_as_color [[1, 0], [254, 255]] WHITE = [[WHITE, (0, 0, 0)], [WHITE, WHITE]]"
proof -
  let ?m = "[[1, 0], [254, 255 :: u8]]"
  have r: "rect ?m" by (simp add: rect_def shape_def)
  have s: "shape ?m = (2, 2)" by (simp add: shape_def)
  have y0: "0 < fst (shape ?m)" and y1: "1 < fst (shape ?m)"
    and x0: "0 < snd (shape ?m)" and x1: "1 < snd (shape ?m)" by (simp_all add: s)
  have l: "length (save_mask_as_color ?m WHITE) = 2"
    by (simp add: length_save_mask_as_color)
  have l0: "length (save_mask_as_color ?m WHITE ! 0) = 2"
    and l1: "length (save_mask_as_color ?m WHITE ! 1) = 2"
    using r by (simp_all add: length_row_save_mask_as_color s)
  have "save_mask_as_color ?m WHITE ! 0 ! 0 = WHITE" "save_mask_as_color ?m WHITE ! 0 ! 1 = (0, 0, 0)"
    "save_mask_as_color ?m WHITE ! 1 ! 0 = WHITE" "save_mask_as_color ?m WHITE ! 1 ! 1 = WHITE"
    using save_mask_as_color_on_iff_greater_zero [OF r y0 x0, of WHITE]
      save_mask_as_color_on_iff_greater_zero [OF r y0 x1, of WHITE]
      save_mask_as_color_on_iff_greater_zero [OF r y1 x0, of WHITE]
      save_mask_as_color_on_iff_greater_zero [OF r y1 x1, of WHITE]
    by simp_all
  then have "save_mask_as_color ?m WHITE = [[WHITE, (0, 0, 0)], [WHITE, WHITE]]"
    using l l0 l1 by (simp add: list_eq_iff_nth_eq nth_Cons' less_Suc_eq numeral_2_eq_2)
  then show ?thesis using r by simp
qed

section \<open>Directories and listings\<close>

lemma files_mkdir_parts [simp]: "files (snd (mkdir_parts qs p w)) = files w"
  by (induction qs arbitrary: w) simp_all

lemma trace_mkdir_parts [simp]: "trace (snd (mkdir_parts qs p w)) = trace w"
  by (induction qs arbitrary: w) simp_all

lemma dirs_mkdir_parts_append:
  "\<exists>zs. dirs (snd (mkdir_parts qs p w)) = zs @ dirs w \<and> set zs \<subseteq> set qs"
proof (induction qs arbitrary: w)
  case Nil
  show ?case by simp
next
  case (Cons q qs)
  show ?case
  proof (cases "q \<in> set (dirs w)")
    case True
    obtain zs where "dirs (snd (mkdir_parts qs p w)) = zs @ dirs w" "set zs \<subseteq> set qs"
      using Cons.IH [of w] by blast
    then show ?thesis using True by auto
  next
    case False
    show ?thesis
    proof (cases "map_of (files w) q \<noteq> None")
      case True
      then show ?thesis using False by simp
    next
      case nofile: False
      let ?w = "w\<lparr>dirs := q # dirs w\<rparr>"
      obtain zs where zs: "dirs (snd (mkdir_parts qs p ?w)) = zs @ dirs ?w" "set zs \<subseteq> set qs"
        using Cons.IH [of ?w] by blast
      have "dirs (snd (mkdir_parts (q # qs) p w)) = (zs @ [q]) @ dirs w"
        using False nofile zs by simp
      moreover have "set (zs @ [q]) \<subseteq> set (q # qs)" using zs by auto
      ultimately show ?thesis by blast
    qed
  qed
qed

lemma set_dirs_mkdir_parts:
  "fst (mkdir_parts qs p w) = None \<Longrightarrow>
   set (dirs (snd (mkdir_parts qs p w))) = set qs \<union> set (dirs w)"
proof (induction qs arbitrary: w)
  case Nil
  show ?case by simp
next
  case (Cons q qs)
  show ?case
  proof (cases "q \<in> set (dirs w)")
    case True
    then show ?thesis using Cons.IH [of w] Cons.prems by auto
  next
    case False
    then have nofile: "map_of (files w) q = None" using Cons.prems by (auto split: if_splits)
    let ?w = "w\<lparr>dirs := q # dirs w\<rparr>"
    have "fst (mkdir_parts qs p ?w) = None" using Cons.prems False nofile by simp
    then have "set (dirs (snd (mkdir_parts qs p ?w))) = set qs \<union> set (dirs ?w)"
      by (rule Cons.IH)
    then show ?thesis using False nofile by simp
  qed
qed

lemma mkdir_parts_ok_iff:
  "fst (mkdir_parts qs p w) = None \<longleftrightarrow> (\<forall>q \<in> set qs. \<not> blocked w q)"
proof (induction qs arbitrary: w)
  case Nil
  show ?case by simp
next
  case (Cons q qs)
  show ?case
  proof (cases "q \<in> set (dirs w)")
    case True
    then show ?thesis using Cons.IH [of w] by (simp add: blocked_def)
  next
    case False
    show ?thesis
    proof (cases "map_of (files w) q \<noteq> None")
      case True
      then show ?thesis using False by (auto simp: blocked_def)
    next
      case nofile: False
      let ?w = "w\<lparr>dirs := q # dirs w\<rparr>"
      have "blocked ?w q' = blocked w q'" for q'
        using nofile by (auto simp: blocked_def)
      then show ?thesis using False nofile Cons.IH [of ?w] by (simp add: blocked_def)
    qed
  qed
qed

lemma output_prefixes:
  "map (\<lambda>n. take n LANES_DIR) [1..<Suc (length LANES_DIR)] = [OUTPUT_DIR, LANES_DIR]"
  "map (\<lambda>n. take n ROADS_DIR) [1..<Suc (length ROADS_DIR)] = [OUTPUT_DIR, ROADS_DIR]"
  by (simp_all add: LANES_DIR_def ROADS_DIR_def OUTPUT_DIR_def upt_conv_Cons del: upt_Suc)

lemma mkdir_output:
  "mkdir LANES_DIR w = mkdir_parts [OUTPUT_DIR, LANES_DIR] LANES_DIR w"
  "mkdir ROADS_DIR w = mkdir_parts [OUTPUT_DIR, ROADS_DIR] ROADS_DIR w"
  unfolding mkdir_def output_prefixes by (rule refl)+

lemma ensure_dirs_cases:
  obtains (lanes_failed) e where "fst (mkdir LANES_DIR w) = Some e"
      "ensure_dirs w = (Some e, snd (mkdir LANES_DIR w))"
    | (lanes_made) "fst (mkdir LANES_DIR w) = None"
      "ensure_dirs w = mkdir ROADS_DIR (snd (mkdir LANES_DIR w))"
proof (cases "fst (mkdir LANES_DIR w)")
  case None
  then have "ensure_dirs w = mkdir ROADS_DIR (snd (mkdir LANES_DIR w))"
    by (cases "mkdir LANES_DIR w") (simp add: ensure_dirs_def)
  then show ?thesis using None lanes_made by blast
next
  case (Some e)
  then have "ensure_dirs w = (Some e, snd (mkdir LANES_DIR w))"
    by (cases "mkdir LANES_DIR w") (simp add: ensure_dirs_def)
  then show ?thesis using Some lanes_failed by blast
qed

lemma files_ensure_dirs [simp]: "files (snd (ensure_dirs w)) = files w"
  by (cases w rule: ensure_dirs_cases) (simp_all add: mkdir_output)

lemma trace_ensure_dirs [simp]: "trace (snd (ensure_dirs w)) = trace w"
  by (cases w rule: ensure_dirs_cases) (simp_all add: mkdir_output)

lemma dirs_ensure_dirs_append:
  "\<exists>zs. dirs (snd (ensure_dirs w)) = zs @ dirs w \<and> set zs \<subseteq> {OUTPUT_DIR, LANES_DIR, ROADS_DIR}"
proof -
  let ?w1 = "snd (mkdir LANES_DIR w)"
  obtain zs1 where 1: "dirs ?w1 = zs1 @ dirs w" "set zs1 \<subseteq> {OUTPUT_DIR, LANES_DIR}"
    using dirs_mkdir_parts_append [of "[OUTPUT_DIR, LANES_DIR]" LANES_DIR w]
    unfolding mkdir_output by auto
  obtain zs2 where 2: "dirs (snd (mkdir ROADS_DIR ?w1)) = zs2 @ dirs ?w1"
    "set zs2 \<subseteq> {OUTPUT_DIR, ROADS_DIR}"
    using dirs_mkdir_parts_append [of "[OUTPUT_DIR, ROADS_DIR]" ROADS_DIR ?w1]
    unfolding mkdir_output by auto
  show ?thesis
  proof (cases w rule: ensure_dirs_cases)
    case (lanes_failed e)
    then show ?thesis using 1 by auto
  next
    case lanes_made
    have "dirs (snd (ensure_dirs w)) = (zs2 @ zs1) @ dirs w" using lanes_made 1 2 by simp
    moreover have "set (zs2 @ zs1) \<subseteq> {OUTPUT_DIR, LANES_DIR, ROADS_DIR}" using 1 2 by auto
    ultimately show ?thesis by blast
  qed
qed

lemma set_dirs_ensure_dirs:
  assumes "fst (ensure_dirs w) = None"
  shows "set (dirs (snd (ensure_dirs w))) = {OUTPUT_DIR, LANES_DIR, ROADS_DIR} \<union> set (dirs w)"
proof (cases w rule: ensure_dirs_cases)
  case (lanes_failed e)
  then show ?thesis using assms by simp
next
  case lanes_made
  let ?w1 = "snd (mkdir LANES_DIR w)"
  have 1: "set (dirs ?w1) = {OUTPUT_DIR, LANES_DIR} \<union> set (dirs w)"
    using set_dirs_mkdir_parts [of "[OUTPUT_DIR, LANES_DIR]" LANES_DIR w] lanes_made(1)
    unfolding mkdir_output by simp
  have "fst (mkdir ROADS_DIR ?w1) = None" using assms lanes_made(2) by simp
  then have "set (dirs (snd (mkdir ROADS_DIR ?w1))) = {OUTPUT_DIR, ROADS_DIR} \<union> set (dirs ?w1)"
    using set_dirs_mkdir_parts [of "[OUTPUT_DIR, ROADS_DIR]" ROADS_DIR ?w1]
    unfolding mkdir_output by simp
  then show ?thesis using lanes_made(2) 1 by auto
qed

lemma output_dirs_distinct:
  "OUTPUT_DIR \<noteq> LANES_DIR" "OUTPUT_DIR \<noteq> ROADS_DIR" "LANES_DIR \<noteq> ROADS_DIR"
  "INPUT_DIR \<noteq> OUTPUT_DIR" "INPUT_DIR \<noteq> LANES_DIR" "INPUT_DIR \<noteq> ROADS_DIR"
  by (simp_all add: INPUT_DIR_def OUTPUT_DIR_def LANES_DIR_def ROADS_DIR_def)

lemma ensure_dirs_ok_iff:
  "fst (ensure_dirs w) = None \<longleftrightarrow>
     \<not> blocked w OUTPUT_DIR \<and> \<not> blocked w LANES_DIR \<and> \<not> blocked w ROADS_DIR"
proof (cases w rule: ensure_dirs_cases)
  case (lanes_failed e)
  have "\<not> (\<forall>q \<in> set [OUTPUT_DIR, LANES_DIR]. \<not> blocked w q)"
    using mkdir_parts_ok_iff [of "[OUTPUT_DIR, LANES_DIR]" LANES_DIR w] lanes_failed(1)
    unfolding mkdir_output by simp
  then show ?thesis using lanes_failed(2) by auto
next
  case lanes_made
  let ?w1 = "snd (mkdir LANES_DIR w)"
  have a: "\<not> blocked w OUTPUT_DIR \<and> \<not> blocked w LANES_DIR"
    using mkdir_parts_ok_iff [of "[OUTPUT_DIR, LANES_DIR]" LANES_DIR w] lanes_made(1)
    unfolding mkdir_output by simp
  have 1: "set (dirs ?w1) = {OUTPUT_DIR, LANES_DIR} \<union> set (dirs w)"
    using set_dirs_mkdir_parts [of "[OUTPUT_DIR, LANES_DIR]" LANES_DIR w] lanes_made(1)
    unfolding mkdir_output by simp
  have f: "files ?w1 = files w" unfolding mkdir_output by simp
  have b: "\<not> blocked ?w1 OUTPUT_DIR" using 1 by (simp add: blocked_def)
  have c: "blocked ?w1 ROADS_DIR = blocked w ROADS_DIR"
    using 1 f output_dirs_distinct by (auto simp: blocked_def)
  have "fst (ensure_dirs w) = None \<longleftrightarrow> (\<forall>q \<in> set [OUTPUT_DIR, ROADS_DIR]. \<not> blocked ?w1 q)"
    using mkdir_parts_ok_iff [of "[OUTPUT_DIR, ROADS_DIR]" ROADS_DIR ?w1] lanes_made(2)
    unfolding mkdir_output by simp
  then show ?thesis using a b c by simp
qed

lemma path_exists_ensure_dirs:
  "path_exists (snd (ensure_dirs w)) INPUT_DIR = path_exists w INPUT_DIR"
proof -
  obtain zs where zs: "dirs (snd (ensure_dirs w)) = zs @ dirs w"
    and sub: "set zs \<subseteq> {OUTPUT_DIR, LANES_DIR, ROADS_DIR}"
    using dirs_ensure_dirs_append by blast
  have "INPUT_DIR \<notin> set zs" using sub output_dirs_distinct by auto
  then show ?thesis by (simp add: path_exists_def zs)
qed

lemma glob_ensure_dirs: "glob (snd (ensure_dirs w)) INPUT_DIR suffix = glob w INPUT_DIR suffix"
proof -
  obtain zs where zs: "dirs (snd (ensure_dirs w)) = zs @ dirs w"
    and sub: "set zs \<subseteq> {OUTPUT_DIR, LANES_DIR, ROADS_DIR}"
    using dirs_ensure_dirs_append by blast
  have "filter (\<lambda>p. p \<noteq> [] \<and> butlast p = INPUT_DIR \<and> ends_with suffix (last p)) zs = []"
    using sub by (auto simp: filter_empty_conv INPUT_DIR_def OUTPUT_DIR_def LANES_DIR_def ROADS_DIR_def)
  moreover have "INPUT_DIR \<notin> set zs" using sub output_dirs_distinct by auto
  ultimately show ?thesis
    by (simp add: glob_def zs)
qed


lemma glob_input_path:
  "p \<in> set (glob w INPUT_DIR suffix) \<Longrightarrow> p = INPUT_DIR @ [name p]"
  by (auto simp: glob_def name_def split: if_splits dest: append_butlast_last_id)


section \<open>The events of one image and of a batch\<close>

lemma new_events_append [simp]: "new_events w (w'\<lparr>trace := trace w @ evs\<rparr>) = evs"
  by (simp add: new_events_def)

lemma new_events_self [simp]: "new_events w w = []"
  by (simp add: new_events_def)

lemma new_events_print_line [simp]: "new_events w (print_line s w) = [Print s]"
  by (simp add: new_events_def print_line_def)

lemma dirs_imwrite [simp]: "dirs (imwrite cv p img w) = dirs w"
  by (simp add: imwrite_def Let_def)

lemma can_write_dirs: "set (dirs a) = set (dirs b) \<Longrightarrow> can_write a p = can_write b p"
  by (simp add: can_write_def is_dir_def)

lemma can_write_imwrite [simp]: "can_write (imwrite cv q img w) p = can_write w p"
  by (rule can_write_dirs) simp

lemma name_output [simp]: "name (LANES_DIR @ [n]) = n" "name (ROADS_DIR @ [n]) = n"
  by (simp_all add: name_def)

lemma trace_imwrite:
  "trace (imwrite cv p img w) =
     trace w @ (if can_write w p then [Write p (imencode cv (name p) img)] else [])"
  by (simp add: imwrite_def Let_def)

lemma files_imwrite:
  "files (imwrite cv p img w) =
     (if can_write w p then AList.update p (imencode cv (name p) img) (files w) else files w)"
  by (simp add: imwrite_def Let_def)

lemma new_events_process_image:
  "new_events w (process_image cv p w) =
     (case imread cv w p of
        None \<Rightarrow> [Print (''Warning: Could not read image: '' @ path_str p)]
      | Some img \<Rightarrow>
          (if can_write w (LANES_DIR @ [name p])
           then [Write (LANES_DIR @ [name p]) (imencode cv (name p)
             (save_mask_as_color (make_mask (cvtColor cv img) LANE_LOWER LANE_UPPER) WHITE))]
           else []) @
          (if can_write w (ROADS_DIR @ [name p])
           then [Write (ROADS_DIR @ [name p]) (imencode cv (name p)
             (save_mask_as_color (make_mask (cvtColor cv img) ROAD_LOWER ROAD_UPPER) GREY))]
           else []))"
proof (cases "imread cv w p")
  case None
  then show ?thesis by (simp add: process_image_def)
next
  case (Some img)
  then show ?thesis
    by (simp add: process_image_def Let_def new_events_def trace_imwrite)
qed

lemma trace_process_image:
  "trace (process_image cv p w) = trace w @ new_events w (process_image cv p w)"
proof (cases "imread cv w p")
  case None
  then show ?thesis by (simp add: process_image_def print_line_def new_events_def)
next
  case (Some img)
  then show ?thesis
    by (simp add: process_image_def Let_def new_events_def trace_imwrite)
qed

lemma dirs_process_image [simp]: "dirs (process_image cv p w) = dirs w"
  by (cases "imread cv w p") (simp_all add: process_image_def print_line_def Let_def)

lemma files_process_image:
  "files (process_image cv p w) = fold apply_event (new_events w (process_image cv p w)) (files w)"
proof (cases "imread cv w p")
  case None
  then show ?thesis
    by (simp add: new_events_process_image) (simp add: process_image_def print_line_def)
next
  case (Some img)
  then show ?thesis
    by (simp add: new_events_process_image) (simp add: process_image_def Let_def files_imwrite)
qed

lemma new_events_process_image_cong:
  "imread cv w1 p = imread cv w2 p \<Longrightarrow>
   can_write w1 (LANES_DIR @ [name p]) = can_write w2 (LANES_DIR @ [name p]) \<Longrightarrow>
   can_write w1 (ROADS_DIR @ [name p]) = can_write w2 (ROADS_DIR @ [name p]) \<Longrightarrow>
   new_events w1 (process_image cv p w1) = new_events w2 (process_image cv p w2)"
proof -
  assume a: "imread cv w1 p = imread cv w2 p"
    and b: "can_write w1 (LANES_DIR @ [name p]) = can_write w2 (LANES_DIR @ [name p])"
    and c: "can_write w1 (ROADS_DIR @ [name p]) = can_write w2 (ROADS_DIR @ [name p])"
  show ?thesis
    unfolding new_events_process_image a
    by (cases "imread cv w2 p") (simp_all only: option.case b c)
qed

lemma take1_output:
  "take 1 (LANES_DIR @ n) = OUTPUT_DIR" "take 1 (ROADS_DIR @ n) = OUTPUT_DIR"
  by (simp_all add: LANES_DIR_def ROADS_DIR_def OUTPUT_DIR_def)

lemma map_of_files_imwrite:
  "q \<noteq> p \<Longrightarrow> map_of (files (imwrite cv p img w)) q = map_of (files w) q"
  by (simp add: files_imwrite update_conv')

lemma map_of_files_process_image:
  "take 1 q \<noteq> OUTPUT_DIR \<Longrightarrow> map_of (files (process_image cv p w)) q = map_of (files w) q"
proof -
  assume "take 1 q \<noteq> OUTPUT_DIR"
  then have ne: "q \<noteq> LANES_DIR @ [name p]" "q \<noteq> ROADS_DIR @ [name p]"
    using take1_output by blast+
  show ?thesis
  proof (cases "imread cv w p")
    case None
    then show ?thesis by (simp add: process_image_def print_line_def)
  next
    case (Some img)
    then show ?thesis
      by (simp add: process_image_def Let_def map_of_files_imwrite [OF ne(1)]
          map_of_files_imwrite [OF ne(2)])
  qed
qed

lemma imread_process_image:
  "take 1 q \<noteq> OUTPUT_DIR \<Longrightarrow> imread cv (process_image cv p w) q = imread cv w q"
  by (simp add: imread_def map_of_files_process_image)

lemma fold_process_image:
  "(\<forall>p \<in> set ps. take 1 p \<noteq> OUTPUT_DIR) \<Longrightarrow>
   trace (fold (process_image cv) ps w) =
     trace w @ concat (map (\<lambda>p. new_events w (process_image cv p w)) ps) \<and>
   dirs (fold (process_image cv) ps w) = dirs w \<and>
   (\<forall>q. take 1 q \<noteq> OUTPUT_DIR \<longrightarrow>
      map_of (files (fold (process_image cv) ps w)) q = map_of (files w) q)"
proof (induction ps arbitrary: w)
  case Nil
  show ?case by simp
next
  case (Cons p ps)
  let ?w1 = "process_image cv p w"
  have rest: "\<forall>q \<in> set ps. take 1 q \<noteq> OUTPUT_DIR" using Cons.prems by simp
  note ih = Cons.IH [OF rest, of ?w1]
  have same: "new_events ?w1 (process_image cv q ?w1) = new_events w (process_image cv q w)"
    if "q \<in> set ps" for q
  proof (rule new_events_process_image_cong)
    show "imread cv ?w1 q = imread cv w q"
      using that rest by (intro imread_process_image) simp
    show "can_write ?w1 (LANES_DIR @ [name q]) = can_write w (LANES_DIR @ [name q])"
      by (rule can_write_dirs) simp
    show "can_write ?w1 (ROADS_DIR @ [name q]) = can_write w (ROADS_DIR @ [name q])"
      by (rule can_write_dirs) simp
  qed
  have eq: "map (\<lambda>q. new_events ?w1 (process_image cv q ?w1)) ps =
        map (\<lambda>q. new_events w (process_image cv q w)) ps"
    using same by simp
  show ?case
    using ih by (simp add: trace_process_image map_of_files_process_image eq)
qed

lemma take1_input: "p \<in> set (glob w INPUT_DIR suffix) \<Longrightarrow> take 1 p = OUTPUT_DIR \<Longrightarrow> False"
proof -
  assume p: "p \<in> set (glob w INPUT_DIR suffix)" and out: "take 1 p = OUTPUT_DIR"
  have "p = INPUT_DIR @ [name p]" using p by (rule glob_input_path)
  then have "take 1 p = INPUT_DIR"
    by (metis INPUT_DIR_def append_Cons append_Nil take0 take_Suc_Cons One_nat_def)
  then show False using out by (simp add: INPUT_DIR_def OUTPUT_DIR_def)
qed

lemma imread_ensure_dirs [simp]: "imread cv (snd (ensure_dirs w)) p = imread cv w p"
  by (simp add: imread_def)


lemma main_raises:
  "fst (ensure_dirs w) = Some e \<Longrightarrow> main cv w = (Inl e, snd (ensure_dirs w))"
  by (cases "ensure_dirs w") (simp add: main_def)

lemma main_returns:
  "fst (ensure_dirs w) = None \<Longrightarrow>
   main cv w =
     (let w = snd (ensure_dirs w) in
      if \<not> path_exists w INPUT_DIR
      then (Inr 1, print_line (''Error: Input directory not found: '' @ path_str INPUT_DIR) w)
      else
        let images = sort (glob w INPUT_DIR ''.jpg'') in
        if images = []
        then (Inr 0, print_line (''No .jpg images found in '' @ path_str INPUT_DIR) w)
        else
          let w = fold (process_image cv) images w in
          (Inr 0, print_line (''Done. Wrote lanes to '' @ [CHR 0x27] @ path_str LANES_DIR
             @ [CHR 0x27] @ '' and roads to '' @ [CHR 0x27] @ path_str ROADS_DIR
             @ [CHR 0x27] @ ''.'') w))"
  by (cases "ensure_dirs w") (simp add: main_def)

lemma main_status:
  "fst (main cv w) =
     (case fst (ensure_dirs w) of
        Some e \<Rightarrow> Inl e
      | None \<Rightarrow> Inr (if path_exists w INPUT_DIR then 0 else 1))"
proof (cases "fst (ensure_dirs w)")
  case None
  then show ?thesis
    by (simp add: main_returns Let_def path_exists_ensure_dirs)
next
  case (Some e)
  then show ?thesis by (simp add: main_raises)
qed

lemma main_events:
  "new_events w (snd (main cv w)) =
     (if fst (ensure_dirs w) \<noteq> None then []
      else if \<not> path_exists w INPUT_DIR
      then [Print (''Error: Input directory not found: '' @ path_str INPUT_DIR)]
      else if glob w INPUT_DIR ''.jpg'' = []
      then [Print (''No .jpg images found in '' @ path_str INPUT_DIR)]
      else concat (map (\<lambda>p. new_events (snd (ensure_dirs w))
                              (process_image cv p (snd (ensure_dirs w))))
                    (sort (glob w INPUT_DIR ''.jpg'')))
           @ [Print (''Done. Wrote lanes to '' @ [CHR 0x27] @ path_str LANES_DIR
                 @ [CHR 0x27] @ '' and roads to '' @ [CHR 0x27] @ path_str ROADS_DIR
                 @ [CHR 0x27] @ ''.'')])"
proof (cases "fst (ensure_dirs w)")
  case (Some e)
  then show ?thesis by (simp add: main_raises new_events_def)
next
  case None
  let ?we = "snd (ensure_dirs w)"
  let ?images = "sort (glob w INPUT_DIR ''.jpg'')"
  have inp: "\<forall>p \<in> set ?images. take 1 p \<noteq> OUTPUT_DIR"
    using take1_input [of _ w "''.jpg''"] by auto
  have tr: "trace (fold (process_image cv) ?images ?we) =
      trace w @ concat (map (\<lambda>p. new_events ?we (process_image cv p ?we)) ?images)"
    using fold_process_image [OF inp, of cv ?we] by simp
  have empty: "?images = [] \<longleftrightarrow> glob w INPUT_DIR ''.jpg'' = []"
    by (metis set_empty set_sort)
  show ?thesis
  proof (cases "path_exists w INPUT_DIR")
    case False
    then show ?thesis using None
      by (simp add: main_returns Let_def path_exists_ensure_dirs print_line_def new_events_def)
  next
    case True
    show ?thesis
    proof (cases "glob w INPUT_DIR ''.jpg'' = []")
      case e: True
      then show ?thesis using None True
        by (simp add: main_returns Let_def path_exists_ensure_dirs glob_ensure_dirs
            print_line_def new_events_def)
    next
      case ne: False
      then have "?images \<noteq> []" using empty by simp
      then have "main cv w = (Inr 0, print_line (''Done. Wrote lanes to '' @ [CHR 0x27]
             @ path_str LANES_DIR
             @ [CHR 0x27] @ '' and roads to '' @ [CHR 0x27] @ path_str ROADS_DIR
             @ [CHR 0x27] @ ''.'') (fold (process_image cv) ?images ?we))"
        using None True
        by (simp add: main_returns Let_def path_exists_ensure_dirs glob_ensure_dirs)
      then have "trace (snd (main cv w)) = trace (fold (process_image cv) ?images ?we)
          @ [Print (''Done. Wrote lanes to '' @ [CHR 0x27] @ path_str LANES_DIR
             @ [CHR 0x27] @ '' and roads to '' @ [CHR 0x27] @ path_str ROADS_DIR
             @ [CHR 0x27] @ ''.'')]"
        by (simp add: print_line_def)
      then have "new_events w (snd (main cv w)) =
          concat (map (\<lambda>p. new_events ?we (process_image cv p ?we)) ?images)
          @ [Print (''Done. Wrote lanes to '' @ [CHR 0x27] @ path_str LANES_DIR
             @ [CHR 0x27] @ '' and roads to '' @ [CHR 0x27] @ path_str ROADS_DIR
             @ [CHR 0x27] @ ''.'')]"
        unfolding new_events_def tr by simp
      then show ?thesis using None True ne by simp
    qed
  qed
qed

section \<open>The files and directories a run leaves\<close>

lemma trace_fold_extends:
  "\<exists>evs. trace (fold (process_image cv) ps w) = trace w @ evs"
proof (induction ps arbitrary: w)
  case Nil
  show ?case by simp
next
  case (Cons p ps)
  let ?w1 = "process_image cv p w"
  obtain evs where "trace (fold (process_image cv) ps ?w1) = trace ?w1 @ evs"
    using Cons.IH [of ?w1] by blast
  then have "trace (fold (process_image cv) (p # ps) w) =
      trace w @ (new_events w ?w1 @ evs)"
    by (simp add: trace_process_image)
  then show ?case by blast
qed

lemma new_events_fold_Cons:
  "new_events w (fold (process_image cv) (p # ps) w) =
     new_events w (process_image cv p w) @
     new_events (process_image cv p w) (fold (process_image cv) ps (process_image cv p w))"
proof -
  let ?w1 = "process_image cv p w"
  obtain e1 where e1: "trace ?w1 = trace w @ e1"
    using trace_process_image [of cv p w] by blast
  obtain e2 where e2: "trace (fold (process_image cv) ps ?w1) = trace ?w1 @ e2"
    using trace_fold_extends [of cv ps ?w1] by blast
  have "new_events w ?w1 = e1" by (simp add: new_events_def e1)
  moreover have "new_events ?w1 (fold (process_image cv) ps ?w1) = e2"
    by (simp add: new_events_def e2)
  moreover have "new_events w (fold (process_image cv) (p # ps) w) = e1 @ e2"
    by (simp add: new_events_def e2 e1)
  ultimately show ?thesis by simp
qed

lemma files_fold_process_image:
  "files (fold (process_image cv) ps w) =
     fold apply_event (new_events w (fold (process_image cv) ps w)) (files w)"
proof (induction ps arbitrary: w)
  case Nil
  show ?case by simp
next
  case (Cons p ps)
  let ?w1 = "process_image cv p w"
  have "files (fold (process_image cv) ps ?w1) =
      fold apply_event (new_events ?w1 (fold (process_image cv) ps ?w1)) (files ?w1)"
    by (rule Cons.IH)
  then show ?case
    unfolding new_events_fold_Cons by (simp add: files_process_image)
qed

lemma files_print_line [simp]: "files (print_line s w) = files w"
  by (simp add: print_line_def)

lemma dirs_print_line [simp]: "dirs (print_line s w) = dirs w"
  by (simp add: print_line_def)

lemma files_main_fold:
  "files (snd (main cv w)) =
     files (fold (process_image cv)
       (if fst (ensure_dirs w) = None \<and> path_exists w INPUT_DIR
        then sort (glob w INPUT_DIR ''.jpg'') else []) (snd (ensure_dirs w)))"
proof (cases "fst (ensure_dirs w)")
  case (Some e)
  then show ?thesis by (simp add: main_raises)
next
  case None
  show ?thesis
  proof (cases "path_exists w INPUT_DIR")
    case False
    then show ?thesis using None
      by (simp add: main_returns Let_def path_exists_ensure_dirs)
  next
    case True
    show ?thesis
    proof (cases "sort (glob w INPUT_DIR ''.jpg'') = []")
      case e: True
      then show ?thesis using None True
        by (simp add: main_returns Let_def path_exists_ensure_dirs glob_ensure_dirs)
    next
      case ne: False
      then show ?thesis using None True
        by (simp add: main_returns Let_def path_exists_ensure_dirs glob_ensure_dirs)
    qed
  qed
qed

lemma dirs_main: "dirs (snd (main cv w)) = dirs (snd (ensure_dirs w))"
proof (cases "fst (ensure_dirs w)")
  case (Some e)
  then show ?thesis by (simp add: main_raises)
next
  case None
  have "\<forall>p \<in> set (sort (glob w INPUT_DIR ''.jpg'')). take 1 p \<noteq> OUTPUT_DIR"
    using take1_input [of _ w "''.jpg''"] by auto
  then have d: "dirs (fold (process_image cv) (sort (glob w INPUT_DIR ''.jpg''))
      (snd (ensure_dirs w))) = dirs (snd (ensure_dirs w))"
    using fold_process_image by blast
  show ?thesis
  proof (cases "path_exists w INPUT_DIR")
    case False
    then show ?thesis using None
      by (simp add: main_returns Let_def path_exists_ensure_dirs)
  next
    case True
    then show ?thesis using None d
      by (simp add: main_returns Let_def path_exists_ensure_dirs glob_ensure_dirs)
  qed
qed

lemma fold_apply_event_append_print:
  "fold apply_event (evs @ [Print s]) fs = fold apply_event evs fs"
  by simp

lemma files_main:
  "files (snd (main cv w)) = fold apply_event (new_events w (snd (main cv w))) (files w)"
proof (cases "fst (ensure_dirs w) = None \<and> path_exists w INPUT_DIR \<and>
    glob w INPUT_DIR ''.jpg'' \<noteq> []")
  case False
  then have "files (snd (main cv w)) = files w"
    unfolding files_main_fold by auto
  moreover have "fold apply_event (new_events w (snd (main cv w))) (files w) = files w"
    using False unfolding main_events by auto
  ultimately show ?thesis by simp
next
  case True
  let ?we = "snd (ensure_dirs w)"
  let ?images = "sort (glob w INPUT_DIR ''.jpg'')"
  have inp: "\<forall>p \<in> set ?images. take 1 p \<noteq> OUTPUT_DIR"
    using take1_input [of _ w "''.jpg''"] by auto
  have ev: "new_events ?we (fold (process_image cv) ?images ?we) =
      concat (map (\<lambda>p. new_events ?we (process_image cv p ?we)) ?images)"
    using fold_process_image [OF inp, of cv ?we] by (simp add: new_events_def)
  have "files (snd (main cv w)) = files (fold (process_image cv) ?images ?we)"
    unfolding files_main_fold using True by simp
  also have "\<dots> = fold apply_event (new_events ?we (fold (process_image cv) ?images ?we)) (files w)"
    unfolding files_fold_process_image by simp
  also have "\<dots> = fold apply_event (new_events w (snd (main cv w))) (files w)"
    unfolding ev main_events using True by simp
  finally show ?thesis .
qed

section \<open>Counting writes and warnings\<close>

lemma writes_simps [simp]:
  "writes [] = []" "writes (Print s # evs) = writes evs" "writes (Write p b # evs) = p # writes evs"
  "writes (evs @ evs') = writes evs @ writes evs'"
  by (simp_all add: writes_def)


lemma warnings_append [simp]: "warnings (evs @ evs') = warnings evs @ warnings evs'"
  by (simp add: warnings_def)






lemma fold_apply_no_writes: "writes evs = [] \<Longrightarrow> fold apply_event evs fs = fs"
proof (induction evs arbitrary: fs)
  case Nil
  show ?case by simp
next
  case (Cons e evs)
  then show ?case by (cases e) simp_all
qed









lemma main_status_cases:
  "(fst (main cv w) = Inr 1 \<longleftrightarrow> fst (ensure_dirs w) = None \<and> \<not> path_exists w INPUT_DIR) \<and>
   (fst (main cv w) = Inr 0 \<longleftrightarrow> fst (ensure_dirs w) = None \<and> path_exists w INPUT_DIR) \<and>
   (fst (main cv w) = Inl e \<longleftrightarrow> fst (ensure_dirs w) = Some e)"
  by (cases "fst (ensure_dirs w)") (simp_all add: main_status)



lemma events_of_image_in_main:
  assumes ok: "fst (main cv w) = Inr 0" and p: "p \<in> set (glob w INPUT_DIR ''.jpg'')"
  shows "set (new_events (snd (ensure_dirs w)) (process_image cv p (snd (ensure_dirs w))))
     \<subseteq> set (new_events w (snd (main cv w)))"
proof -
  have en: "fst (ensure_dirs w) = None" and ex: "path_exists w INPUT_DIR"
    using ok main_status_cases [of cv w] by blast+
  have ne: "glob w INPUT_DIR ''.jpg'' \<noteq> []" using p by auto
  have "p \<in> set (sort (glob w INPUT_DIR ''.jpg''))" using p by simp
  then have "set (new_events (snd (ensure_dirs w)) (process_image cv p (snd (ensure_dirs w)))) \<subseteq>
      set (concat (map (\<lambda>p. new_events (snd (ensure_dirs w))
              (process_image cv p (snd (ensure_dirs w))))
            (sort (glob w INPUT_DIR ''.jpg''))))"
    by (auto simp del: set_sort)
  then show ?thesis unfolding main_events using en ex ne by auto
qed

lemma no_writes_main:
  assumes "fst (main cv w) \<noteq> Inr 0 \<or> glob w INPUT_DIR ''.jpg'' = []"
  shows "writes (new_events w (snd (main cv w))) = []" and "files (snd (main cv w)) = files w"
proof -
  show wr: "writes (new_events w (snd (main cv w))) = []"
    using assms main_status_cases [of cv w] unfolding main_events by auto
  show "files (snd (main cv w)) = files w"
    unfolding files_main using wr by (rule fold_apply_no_writes)
qed

section \<open>Shapes along the pipeline\<close>

lemma shape_cvtColor: "shape (cvtColor cv img) = shape img"
  by (simp add: cvtColor_def shape_map_map)

lemma shape_make_mask: "shape (make_mask hsv lower upper) = shape hsv"
  by (simp add: make_mask_unfold shape_erode shape_dilate shape_inRange)

lemma rect_make_mask: "rect (make_mask hsv lower upper)"
  by (simp add: make_mask_unfold rect_erode)


section \<open>Runs that see the same input\<close>















section \<open>The pipeline and the driver: properties\<close>

subsection \<open>The exit status of the batch driver\<close>

text \<open>
  Claim C4, as the code has it. The driver tests the input path with
  \<^verbatim>\<open>exists()\<close>, after it has made the output directories. So the status is 1
  exactly when the output directories could be made and nothing, neither a directory nor a
  regular file, is at the input path; it is 0 exactly when they could be made and something
  is there; and the run ends with the exception of \<^verbatim>\<open>mkdir\<close>, without a
  status, exactly when a regular file stands at \<^verbatim>\<open>output\<close>,
  \<^verbatim>\<open>output/lanes\<close> or \<^verbatim>\<open>output/roads\<close>. A run that does
  not end with the status 0 writes no file, and neither does a run that finds no
  \<^verbatim>\<open>.jpg\<close> entry. In a run with the status 0 the events of every discovered
  image, a warning or its writes, are among the events of the run, whatever the number of
  images that fail to load.
\<close>

theorem main_status_by_input_path:
  "(fst (main cv w) = Inr 1 \<longleftrightarrow> fst (ensure_dirs w) = None \<and> \<not> path_exists w INPUT_DIR) \<and>
   (fst (main cv w) = Inr 0 \<longleftrightarrow> fst (ensure_dirs w) = None \<and> path_exists w INPUT_DIR) \<and>
   (fst (main cv w) = Inl e \<longleftrightarrow> fst (ensure_dirs w) = Some e) \<and>
   (fst (ensure_dirs w) = None \<longleftrightarrow>
      \<not> blocked w OUTPUT_DIR \<and> \<not> blocked w LANES_DIR \<and> \<not> blocked w ROADS_DIR) \<and>
   (fst (main cv w) \<noteq> Inr 0 \<longrightarrow>
      writes (new_events w (snd (main cv w))) = [] \<and> files (snd (main cv w)) = files w) \<and>
   (glob w INPUT_DIR ''.jpg'' = [] \<longrightarrow>
      writes (new_events w (snd (main cv w))) = [] \<and> files (snd (main cv w)) = files w) \<and>
   (fst (main cv w) = Inr 0 \<longrightarrow>
      (\<forall>p \<in> set (glob w INPUT_DIR ''.jpg'').
         set (new_events (snd (ensure_dirs w)) (process_image cv p (snd (ensure_dirs w))))
           \<subseteq> set (new_events w (snd (main cv w)))))"
proof (intro conjI impI ballI)
  show "fst (main cv w) = Inr 1 \<longleftrightarrow> fst (ensure_dirs w) = None \<and> \<not> path_exists w INPUT_DIR"
    using main_status_cases [of cv w] by blast
  show "fst (main cv w) = Inr 0 \<longleftrightarrow> fst (ensure_dirs w) = None \<and> path_exists w INPUT_DIR"
    using main_status_cases [of cv w] by blast
  show "fst (main cv w) = Inl e \<longleftrightarrow> fst (ensure_dirs w) = Some e"
    using main_status_cases [of cv w e] by blast
  show "fst (ensure_dirs w) = None \<longleftrightarrow>
      \<not> blocked w OUTPUT_DIR \<and> \<not> blocked w LANES_DIR \<and> \<not> blocked w ROADS_DIR"
    by (rule ensure_dirs_ok_iff)
next
  assume "fst (main cv w) \<noteq> Inr 0"
  then show "writes (new_events w (snd (main cv w))) = []" "files (snd (main cv w)) = files w"
    using no_writes_main [of cv w] by blast+
next
  assume "glob w INPUT_DIR ''.jpg'' = []"
  then show "writes (new_events w (snd (main cv w))) = []" "files (snd (main cv w)) = files w"
    using no_writes_main [of cv w] by blast+
next
  fix p assume "fst (main cv w) = Inr 0" "p \<in> set (glob w INPUT_DIR ''.jpg'')"
  then show "set (new_events (snd (ensure_dirs w)) (process_image cv p (snd (ensure_dirs w))))
           \<subseteq> set (new_events w (snd (main cv w)))"
    by (rule events_of_image_in_main)
qed

text \<open>
  Claim C4 as it is written fails: with a regular file named \<^verbatim>\<open>input\<close>
  there is no input directory and the status is 0, and with a regular file named
  \<^verbatim>\<open>output\<close> the input directory exists and the run ends with an exception.
\<close>

theorem main_status_counterexample:
  "\<not> is_dir input_file_world INPUT_DIR \<and>
   fst (main plain_codec input_file_world) = Inr 0 \<and>
   is_dir output_file_world INPUT_DIR \<and>
   fst (main plain_codec output_file_world) = Inl NotADirectoryError"
  by code_simp

text \<open>
  The worlds without an input path, with no matching file, with a regular file at the input
  path, with a regular file at the output path, and the sample.
\<close>

theorem main_status_by_input_path_witness:
  "fst (ensure_dirs missing_world) = None \<and> \<not> path_exists missing_world INPUT_DIR \<and>
   fst (main plain_codec missing_world) = Inr 1 \<and>
   writes (new_events missing_world (snd (main plain_codec missing_world))) = [] \<and>
   path_exists empty_world INPUT_DIR \<and> glob empty_world INPUT_DIR ''.jpg'' = [] \<and>
   fst (main plain_codec empty_world) = Inr 0 \<and>
   files (snd (main plain_codec empty_world)) = files empty_world \<and>
   path_exists input_file_world INPUT_DIR \<and>
   fst (main plain_codec input_file_world) = Inr 0 \<and>
   blocked output_file_world OUTPUT_DIR \<and>
   fst (main plain_codec output_file_world) = Inl NotADirectoryError \<and>
   fst (main plain_codec sample_world) = Inr 0"
proof -
  have m: "fst (ensure_dirs missing_world) = None" "\<not> path_exists missing_world INPUT_DIR"
    by code_simp+
  have e: "fst (ensure_dirs empty_world) = None" "path_exists empty_world INPUT_DIR"
    "glob empty_world INPUT_DIR ''.jpg'' = []"
    by code_simp+
  have i: "fst (ensure_dirs input_file_world) = None" "path_exists input_file_world INPUT_DIR"
    by code_simp+
  have ob: "blocked output_file_world OUTPUT_DIR" by code_simp
  have o: "fst (ensure_dirs output_file_world) = Some NotADirectoryError" by code_simp
  have s: "fst (ensure_dirs sample_world) = None" "path_exists sample_world INPUT_DIR"
    by code_simp+
  note tm = main_status_by_input_path [of plain_codec missing_world]
  note te = main_status_by_input_path [of plain_codec empty_world]
  note ti = main_status_by_input_path [of plain_codec input_file_world]
  note to = main_status_by_input_path [of plain_codec output_file_world NotADirectoryError]
  note ts = main_status_by_input_path [of plain_codec sample_world]
  have 1: "fst (main plain_codec missing_world) = Inr 1" using tm m by blast
  then have 2: "writes (new_events missing_world (snd (main plain_codec missing_world))) = []"
    using tm by simp
  have 3: "fst (main plain_codec empty_world) = Inr 0" using te e by blast
  have 4: "files (snd (main plain_codec empty_world)) = files empty_world" using te e by blast
  have 5: "fst (main plain_codec input_file_world) = Inr 0" using ti i by blast
  have 6: "fst (main plain_codec output_file_world) = Inl NotADirectoryError" using to o by blast
  have 7: "fst (main plain_codec sample_world) = Inr 0" using ts s by blast
  show ?thesis using m e i ob 1 2 3 4 5 6 7 by blast
qed

subsection \<open>Writes and warnings\<close>




subsection \<open>The shape of the outputs\<close>

text \<open>
  Claim C6. For an image that loads, the only images handed to the writer are the painted
  lane mask and the painted road mask, and both have the height and the width of the source
  image: the colour conversion, the thresholding, the morphology and the painting each keep
  the shape. Where both output paths can be opened for writing, the two writes are the
  events of the image.
\<close>

theorem process_image_outputs_keep_shape:
  "imread cv w p = Some img \<Longrightarrow>
   (let hsv = cvtColor cv img;
        lane_mask = make_mask hsv LANE_LOWER LANE_UPPER;
        lane_out = save_mask_as_color lane_mask WHITE;
        road_mask = make_mask hsv ROAD_LOWER ROAD_UPPER;
        road_out = save_mask_as_color road_mask GREY
    in set (new_events w (process_image cv p w)) \<subseteq>
         {Write (LANES_DIR @ [name p]) (imencode cv (name p) lane_out),
          Write (ROADS_DIR @ [name p]) (imencode cv (name p) road_out)} \<and>
       (can_write w (LANES_DIR @ [name p]) \<and> can_write w (ROADS_DIR @ [name p]) \<longrightarrow>
          new_events w (process_image cv p w) =
            [Write (LANES_DIR @ [name p]) (imencode cv (name p) lane_out),
             Write (ROADS_DIR @ [name p]) (imencode cv (name p) road_out)]) \<and>
       shape hsv = shape img \<and>
       shape (inRange hsv LANE_LOWER LANE_UPPER) = shape img \<and>
       shape (inRange hsv ROAD_LOWER ROAD_UPPER) = shape img \<and>
       shape lane_mask = shape img \<and> shape road_mask = shape img \<and>
       shape lane_out = shape img \<and> shape road_out = shape img \<and>
       rect lane_out \<and> rect road_out)"
  by (auto simp: Let_def new_events_process_image shape_cvtColor shape_make_mask shape_inRange
      shape_save_mask_as_color rect_save_mask_as_color rect_make_mask)

text \<open>
  The 1 by 2 image of the sample directory.
\<close>

theorem process_image_outputs_keep_shape_witness:
  "imread plain_codec sample_world [''input'', ''c.jpg''] = Some [[(130, 50, 130), (0, 0, 0)]] \<and>
   shape [[(130, 50, 130), (0, 0, 0) :: pixel]] = (1, 2) \<and>
   shape (save_mask_as_color
     (make_mask (cvtColor plain_codec [[(130, 50, 130), (0, 0, 0)]]) LANE_LOWER LANE_UPPER) WHITE)
     = (1, 2) \<and>
   shape (save_mask_as_color
     (make_mask (cvtColor plain_codec [[(130, 50, 130), (0, 0, 0)]]) ROAD_LOWER ROAD_UPPER) GREY)
     = (1, 2)"
proof -
  have c: "imread plain_codec sample_world [''input'', ''c.jpg''] = Some [[(130, 50, 130), (0, 0, 0)]]"
    by code_simp
  have s: "shape [[(130, 50, 130), (0, 0, 0) :: pixel]] = (1, 2)" by (simp add: shape_def)
  note t = process_image_outputs_keep_shape [OF c, unfolded Let_def s]
  show ?thesis
    using c s t by blast
qed

subsection \<open>Output directories of a failing run\<close>

text \<open>
  Claim C9. The driver makes the output directories before it looks at the input path: a
  run that ends with the status 1 leaves the world in which both output directories have
  been made, with the error line printed, and has written no file. A run in which an
  output directory cannot be made ends with the exception, whatever is at the input path.
\<close>

theorem status_1_run_has_made_output_dirs:
  "(fst (main cv w) = Inr 1 \<longrightarrow>
      \<not> path_exists w INPUT_DIR \<and>
      snd (main cv w) =
        print_line (''Error: Input directory not found: '' @ path_str INPUT_DIR)
          (snd (ensure_dirs w)) \<and>
      is_dir (snd (main cv w)) LANES_DIR \<and> is_dir (snd (main cv w)) ROADS_DIR \<and>
      LANES_DIR \<in> set (dirs (snd (main cv w))) \<and> ROADS_DIR \<in> set (dirs (snd (main cv w))) \<and>
      files (snd (main cv w)) = files w \<and>
      writes (new_events w (snd (main cv w))) = []) \<and>
   (fst (ensure_dirs w) = Some e \<longrightarrow> main cv w = (Inl e, snd (ensure_dirs w)))"
proof (intro conjI impI)
  assume st: "fst (main cv w) = Inr 1"
  then have en: "fst (ensure_dirs w) = None" and no: "\<not> path_exists w INPUT_DIR"
    using main_status_cases [of cv w] by blast+
  show "\<not> path_exists w INPUT_DIR" by (rule no)
  show "snd (main cv w) =
        print_line (''Error: Input directory not found: '' @ path_str INPUT_DIR)
          (snd (ensure_dirs w))"
    using en no by (simp add: main_returns Let_def path_exists_ensure_dirs)
  have d: "set (dirs (snd (main cv w))) = {OUTPUT_DIR, LANES_DIR, ROADS_DIR} \<union> set (dirs w)"
    unfolding dirs_main using en by (rule set_dirs_ensure_dirs)
  show "LANES_DIR \<in> set (dirs (snd (main cv w)))" "ROADS_DIR \<in> set (dirs (snd (main cv w)))"
    using d by simp_all
  then show "is_dir (snd (main cv w)) LANES_DIR" "is_dir (snd (main cv w)) ROADS_DIR"
    by (simp_all add: is_dir_def)
  have "fst (main cv w) \<noteq> Inr 0" using st by simp
  then show "files (snd (main cv w)) = files w" "writes (new_events w (snd (main cv w))) = []"
    using no_writes_main [of cv w] by blast+
next
  assume "fst (ensure_dirs w) = Some e"
  then show "main cv w = (Inl e, snd (ensure_dirs w))" by (rule main_raises)
qed

text \<open>
  A world with no directory at all: after the failing run both output directories exist.
  A world with a regular file at the output path: the run ends with the exception.
\<close>

theorem status_1_run_has_made_output_dirs_witness:
  "fst (main plain_codec missing_world) = Inr 1 \<and>
   \<not> is_dir missing_world LANES_DIR \<and> \<not> is_dir missing_world ROADS_DIR \<and>
   is_dir (snd (main plain_codec missing_world)) LANES_DIR \<and>
   is_dir (snd (main plain_codec missing_world)) ROADS_DIR \<and>
   files (snd (main plain_codec missing_world)) = [] \<and>
   fst (ensure_dirs output_file_world) = Some NotADirectoryError \<and>
   fst (main plain_codec output_file_world) = Inl NotADirectoryError"
proof -
  have m: "fst (main plain_codec missing_world) = Inr 1" by code_simp
  have l: "\<not> is_dir missing_world LANES_DIR" "\<not> is_dir missing_world ROADS_DIR"
    by code_simp+
  have f: "files missing_world = []" by (simp add: missing_world_def)
  have o: "fst (ensure_dirs output_file_world) = Some NotADirectoryError" by code_simp
  note t = status_1_run_has_made_output_dirs [of plain_codec missing_world]
  note u = status_1_run_has_made_output_dirs [of plain_codec output_file_world NotADirectoryError]
  have d: "is_dir (snd (main plain_codec missing_world)) LANES_DIR"
    "is_dir (snd (main plain_codec missing_world)) ROADS_DIR"
    using t m by blast+
  have fl: "files (snd (main plain_codec missing_world)) = []"
    using t m unfolding f by blast
  have "main plain_codec output_file_world =
      (Inl NotADirectoryError, snd (ensure_dirs output_file_world))"
    using u o by blast
  then have r: "fst (main plain_codec output_file_world) = Inl NotADirectoryError" by simp
  show ?thesis using m l d fl o r by blast
qed

subsection \<open>Determinism\<close>



end
